theory Spec2Isabelle
  imports Main "HOL-Library.Word" "HOL-Library.Monad_Syntax"
begin

unbundle bit_operations_syntax

section \<open>OpenLRS receiver link engine for the RFM22B (pios\_openlrs.c)\<close>

text \<open>
  A shallow embedding of \<^verbatim>\<open>flight/PiOS/Common/pios_openlrs.c\<close>. The target is a
  32-bit ARM microcontroller: \<^verbatim>\<open>int\<close> and \<^verbatim>\<open>long\<close> are 32 bits wide, unsigned
  arithmetic wraps, and the C integer promotions are written out where they matter.
  Behaviour that C leaves undefined (a read or write outside an array, a signed
  overflow, a division by zero) is the value \<open>None\<close>.
\<close>

type_synonym u8 = "8 word"
type_synonym u16 = "16 word"
type_synonym u32 = "32 word"

subsection \<open>Constants of headers outside this file\<close>

text \<open>
  \<^verbatim>\<open>pios_openlrs_priv.h\<close> is not part of the sources at hand. Its constants and the
  one conditional-compilation switch the file tests are parameters of the model.
  \<open>MAXHOPS\<close> is the length of \<^verbatim>\<open>hopchannel[]\<close>, indexed by the \<^verbatim>\<open>uint8_t\<close>
  variables \<^verbatim>\<open>hopcount\<close> and \<^verbatim>\<open>rf_channel\<close>; it is taken as a byte.
  \<open>decode_bind_data\<close> stands for the memory layout of \<^verbatim>\<open>struct bind_data\<close>: it
  reads the structure out of the \<open>sizeof_bind_data\<close> bytes stored at its address.
\<close>

datatype gpio_direction = GPIO0_TX_GPIO1_RX | GPIO0_RX_GPIO1_TX

record bind_data =
  version :: u8
  serial_baudrate :: u32
  rf_frequency :: u32
  rf_magic :: u32
  rf_power :: u8
  rf_channel_spacing :: u8
  hopchannel :: "u8 list"
  modem_params :: u8
  flags :: u8

record build_config =
  MAXHOPS :: u8
  BINDING_VERSION :: u8
  BINDING_FREQUENCY :: u32
  BINDING_POWER :: u8
  BIND_MAGIC :: u32
  TELEMETRY_MASK :: u8
  DIVERSITY_ENABLED :: u8
  TELEMETRY_PACKETSIZE :: u32
  LIMIT_RATE_TO_50HZ :: bool
  OPENLRS_HOPCHANNEL_NUMELEM :: nat
  PIOS_OPENLRS_DEV_MAGIC :: u32
  sizeof_bind_data :: nat
  decode_bind_data :: "u8 list \<Rightarrow> bind_data"

subsection \<open>Private constants\<close>

record rfm22_modem_regs =
  bps :: u32
  r_1c :: u8
  r_1d :: u8
  r_1e :: u8
  r_20 :: u8
  r_21 :: u8
  r_22 :: u8
  r_23 :: u8
  r_24 :: u8
  r_25 :: u8
  r_2a :: u8
  r_6e :: u8
  r_6f :: u8
  r_70 :: u8
  r_71 :: u8
  r_72 :: u8

definition mk_modem_regs :: "u32 \<Rightarrow> u8 list \<Rightarrow> rfm22_modem_regs" where
  "mk_modem_regs b rs =
     \<lparr> bps = b, r_1c = rs ! 0, r_1d = rs ! 1, r_1e = rs ! 2, r_20 = rs ! 3, r_21 = rs ! 4,
       r_22 = rs ! 5, r_23 = rs ! 6, r_24 = rs ! 7, r_25 = rs ! 8, r_2a = rs ! 9,
       r_6e = rs ! 10, r_6f = rs ! 11, r_70 = rs ! 12, r_71 = rs ! 13, r_72 = rs ! 14 \<rparr>"

text \<open>The table \<^verbatim>\<open>modem_params[]\<close> (the field of \<open>bind_data\<close> has that name here).\<close>

definition modem_params_tab :: "rfm22_modem_regs list" where
  "modem_params_tab =
    [ mk_modem_regs 4800 [0x1a, 0x40, 0x0a, 0xa1, 0x20, 0x4e, 0xa5, 0x00, 0x1b, 0x1e, 0x27, 0x52, 0x2c, 0x23, 0x30],
      mk_modem_regs 9600 [0x05, 0x40, 0x0a, 0xa1, 0x20, 0x4e, 0xa5, 0x00, 0x20, 0x24, 0x4e, 0xa5, 0x2c, 0x23, 0x30],
      mk_modem_regs 19200 [0x06, 0x40, 0x0a, 0xd0, 0x00, 0x9d, 0x49, 0x00, 0x7b, 0x28, 0x9d, 0x49, 0x2c, 0x23, 0x30],
      mk_modem_regs 57600 [0x05, 0x40, 0x0a, 0x45, 0x01, 0xd7, 0xdc, 0x03, 0xb8, 0x1e, 0x0e, 0xbf, 0x00, 0x23, 0x2e],
      mk_modem_regs 125000 [0x8a, 0x40, 0x0a, 0x60, 0x01, 0x55, 0x55, 0x02, 0xad, 0x1e, 0x20, 0x00, 0x00, 0x23, 0xc8] ]"

definition bind_params :: rfm22_modem_regs where
  "bind_params =
     mk_modem_regs 9600 [0x05, 0x40, 0x0a, 0xa1, 0x20, 0x4e, 0xa5, 0x00, 0x20, 0x24, 0x4e, 0xa5, 0x2c, 0x23, 0x30]"

definition pktsizes :: "u8 list" where
  "pktsizes = [0, 7, 11, 12, 16, 17, 21, 0]"

text \<open>An array read \<^verbatim>\<open>a[i]\<close>: outside the array the behaviour is undefined.\<close>

definition array_get :: "'a list \<Rightarrow> nat \<Rightarrow> 'a option" where
  "array_get xs i = (if i < length xs then Some (xs ! i) else None)"

text \<open>\<^verbatim>\<open>modem_params[bd->modem_params]\<close>, the only way the table is read.\<close>

definition modem_params_at :: "u8 \<Rightarrow> rfm22_modem_regs option" where
  "modem_params_at idx = array_get modem_params_tab (unat idx)"

subsection \<open>OpenLRS data formatting utilities\<close>

definition getPacketSize :: "bind_data \<Rightarrow> u8" where
  "getPacketSize bd = pktsizes ! unat (flags bd AND 0x07)"

text \<open>
  The macro \<^verbatim>\<open>BYTES_AT_BAUD_TO_USEC(bytes, bps, div)\<close>, in \<^verbatim>\<open>uint32_t\<close> arithmetic:
  \<^verbatim>\<open>((uint32_t)((bytes) + (div?20:15)) * 8200000L / (uint32_t)(bps))\<close>.
\<close>

definition BYTES_AT_BAUD_TO_USEC :: "u32 \<Rightarrow> u32 \<Rightarrow> bool \<Rightarrow> u32" where
  "BYTES_AT_BAUD_TO_USEC bytes b dv = (bytes + (if dv then 20 else 15)) * 8200000 div b"

definition getInterval :: "build_config \<Rightarrow> bind_data \<Rightarrow> u32 option" where
  "getInterval cfg bd = do {
     r \<leftarrow> modem_params_at (modem_params bd);
     if bps r = 0 then None
     else
       let dv = (flags bd AND DIVERSITY_ENABLED cfg \<noteq> 0);
           ret = BYTES_AT_BAUD_TO_USEC (ucast (getPacketSize bd)) (bps r) dv + 2000;
           ret = (if flags bd AND TELEMETRY_MASK cfg \<noteq> 0
                  then ret + (BYTES_AT_BAUD_TO_USEC (TELEMETRY_PACKETSIZE cfg) (bps r) dv + 1000)
                  else ret);
           ret = ((ret + 999) div 1000) * 1000;
           ret = (if LIMIT_RATE_TO_50HZ cfg \<and> ret < 20000 then 20000 else ret)
       in Some ret
   }"


text \<open>
  \<^verbatim>\<open>unpackChannels(config, PPM, p)\<close>. The pointer \<^verbatim>\<open>p\<close> is the list of bytes from its
  target onwards (\<^verbatim>\<open>p += 5\<close> drops five of them); \<^verbatim>\<open>PPM\<close> is the whole output array
  with the offset \<open>off\<close> the pointer has reached. \<^verbatim>\<open>int16_t\<close> is a 16-bit word, read by
  \<open>sint\<close>.
\<close>

type_synonym s16 = "16 word"

function unpackChannels_loop ::
  "u8 \<Rightarrow> u8 \<Rightarrow> s16 list \<Rightarrow> nat \<Rightarrow> u8 list \<Rightarrow> (s16 list \<times> nat \<times> u8 list) option" where
  "unpackChannels_loop i config PPM off p =
     (if i \<le> config div 2 then
        (if length p < 5 \<or> length PPM < off + 4 then None
         else unpackChannels_loop (i + 1) config
                (PPM[off := push_bit 8 (ucast (p ! 4) AND 0x03) + ucast (p ! 0),
                     off + 1 := push_bit 6 (ucast (p ! 4) AND 0x0c) + ucast (p ! 1),
                     off + 2 := push_bit 4 (ucast (p ! 4) AND 0x30) + ucast (p ! 2),
                     off + 3 := push_bit 2 (ucast (p ! 4) AND 0xc0) + ucast (p ! 3)])
                (off + 4) (drop 5 p))
      else Some (PPM, off, p))"
  by pat_completeness auto
termination
proof (relation "measure (\<lambda>(i, config, PPM, off, p). Suc (unat (config div 2)) - unat i)")
  show "wf (measure (\<lambda>(i, config, PPM, off, p). Suc (unat (config div 2)) - unat i))" by simp
next
  fix i config :: u8 and PPM :: "s16 list" and off :: nat and p :: "u8 list"
  assume a: "i \<le> config div 2" and "\<not> (length p < 5 \<or> length PPM < off + 4)"
  have "unat config < 256" using unsigned_less [of config] by simp
  then have h: "unat (config div 2) < 128" by (simp add: unat_div)
  from a have l: "unat i \<le> unat (config div 2)" by (simp only: word_le_nat_alt)
  with h have "unat (i + 1) = unat i + 1"
    by (subst unat_add_lem [THEN iffD1]) auto
  with l show "((i + 1, config,
           PPM[off := push_bit 8 (ucast (p ! 4) AND 0x03) + ucast (p ! 0),
               off + 1 := push_bit 6 (ucast (p ! 4) AND 0x0c) + ucast (p ! 1),
               off + 2 := push_bit 4 (ucast (p ! 4) AND 0x30) + ucast (p ! 2),
               off + 3 := push_bit 2 (ucast (p ! 4) AND 0xc0) + ucast (p ! 3)],
           off + 4, drop 5 p), i, config, PPM, off, p)
         \<in> measure (\<lambda>(i, config, PPM, off, p). Suc (unat (config div 2)) - unat i)"
    by simp
qed

declare unpackChannels_loop.simps [simp del]

definition unpackChannels :: "u8 \<Rightarrow> s16 list \<Rightarrow> u8 list \<Rightarrow> s16 list option" where
  "unpackChannels config PPM p = do {
     (PPM, off, p) \<leftarrow> unpackChannels_loop 0 config PPM 0 p;
     if config AND 1 \<noteq> 0 then
       (if length p < 1 \<or> length PPM < off + 4 then None
        else Some (PPM[off := (drop_bit 6 (ucast (p ! 0)) AND 3) * 333 + 12,
                       off + 1 := (drop_bit 4 (ucast (p ! 0)) AND 3) * 333 + 12,
                       off + 2 := (drop_bit 2 (ucast (p ! 0)) AND 3) * 333 + 12,
                       off + 3 := (drop_bit 0 (ucast (p ! 0)) AND 3) * 333 + 12]))
     else Some PPM
   }"

subsection \<open>The device and the file-scope variables\<close>

text \<open>
  \<^verbatim>\<open>enum\<close> of the radio modes and \<^verbatim>\<open>struct pios_openlrs_dev\<close> are declared in
  \<^verbatim>\<open>pios_openlrs_priv.h\<close>; the fields are those this file uses. One record holds the
  device structure, the file-scope variables of the file (\<open>hopcount\<close> to \<open>irqs\<close>,
  \<open>tx_start\<close>, and whether \<^verbatim>\<open>g_openlrs_dev\<close> points to the device) and what the file
  does to its collaborators: \<open>spi_log\<close> lists the bytes clocked out in every SPI
  transfer, \<open>saved\<close> the objects handed to \<^verbatim>\<open>OpenLRSSet\<close> and \<^verbatim>\<open>UAVObjSave\<close>.
  Debug output, LED toggles, sleeps, the watchdog, bus claims, chip select and the
  notification of the PPM receiver are not modelled.
\<close>

datatype rf_mode = Available | Transmit | Receive | Transmitted | Received

record openlrs =
  magic :: u32
  gpio_dir :: gpio_direction
  bind_data :: bind_data
  rf_mode :: rf_mode
  rf_channel :: u8
  link_acquired :: bool
  rx_buf :: "u8 list"
  ppm :: "s16 list"
  it_status1 :: u8
  it_status2 :: u8
  g_openlrs_dev_set :: bool
  hopcount :: u8
  lastPacketTimeUs :: u32
  numberOfLostPackets :: u32
  lastAFCCvalue :: u16
  linkQuality :: u16
  lastRSSITimeUs :: u32
  lastRSSIvalue :: u8
  RSSI_sum :: u16
  RSSI_count :: u8
  smoothRSSI :: u8
  willhop :: bool
  nextBeaconTimeMs :: u32
  linkLossTimeMs :: u32
  irqs :: u32
  tx_start :: u32
  spi_log :: "u8 list list"
  saved :: "bind_data list"

text \<open>
  What the hardware answers during one pass of a polling loop: \<open>regs\<close> the value a
  register read returns, \<open>fifo\<close> the bytes a burst read of the FIFO clocks in,
  \<open>timeTemp\<close>, \<open>timeUs\<close> and \<open>timeMs\<close> the clock values read by \<^verbatim>\<open>micros()\<close> and
  \<^verbatim>\<open>millis()\<close>, \<open>sent_irq\<close> whether the packet-sent interrupt arrives while
  \<^verbatim>\<open>tx_packet\<close> waits for it.
\<close>

record inputs =
  regs :: "u8 \<Rightarrow> u8"
  fifo :: "nat \<Rightarrow> u8"
  timeTemp :: u32
  timeUs :: u32
  timeMs :: u32
  sent_irq :: bool

subsection \<open>RFM22B registers\<close>

text \<open>
  Modelled from the spec: \<^verbatim>\<open>pios_rfm22b_regs.h\<close> is not part of the sources at hand. The
  addresses are those of the register map in the specification (section 6.1) and of the
  literal addresses in the file's comments; the bit values are those of the RFM22B
  register description, which the specification's carrier example (\<open>0x75 = 0x53\<close> for
  band 19) fixes for \<open>RFM22_fbs_sbse\<close>.
\<close>

definition "RFM22_interrupt_status1 = (0x03 :: u8)"
definition "RFM22_interrupt_status2 = (0x04 :: u8)"
definition "RFM22_interrupt_enable1 = (0x05 :: u8)"
definition "RFM22_interrupt_enable2 = (0x06 :: u8)"
definition "RFM22_op_and_func_ctrl1 = (0x07 :: u8)"
definition "RFM22_op_and_func_ctrl2 = (0x08 :: u8)"
definition "RFM22_xtal_osc_load_cap = (0x09 :: u8)"
definition "RFM22_cpu_output_clk = (0x0a :: u8)"
definition "RFM22_gpio0_config = (0x0b :: u8)"
definition "RFM22_gpio1_config = (0x0c :: u8)"
definition "RFM22_gpio2_config = (0x0d :: u8)"
definition "RFM22_io_port_config = (0x0e :: u8)"
definition "RFM22_if_filter_bandwidth = (0x1c :: u8)"
definition "RFM22_afc_loop_gearshift_override = (0x1d :: u8)"
definition "RFM22_afc_timing_control = (0x1e :: u8)"
definition "RFM22_clk_recovery_oversampling_ratio = (0x20 :: u8)"
definition "RFM22_clk_recovery_offset2 = (0x21 :: u8)"
definition "RFM22_clk_recovery_offset1 = (0x22 :: u8)"
definition "RFM22_clk_recovery_offset0 = (0x23 :: u8)"
definition "RFM22_clk_recovery_timing_loop_gain1 = (0x24 :: u8)"
definition "RFM22_clk_recovery_timing_loop_gain0 = (0x25 :: u8)"
definition "RFM22_afc_limiter = (0x2a :: u8)"
definition "RFM22_data_access_control = (0x30 :: u8)"
definition "RFM22_header_control1 = (0x32 :: u8)"
definition "RFM22_header_control2 = (0x33 :: u8)"
definition "RFM22_preamble_length = (0x34 :: u8)"
definition "RFM22_preamble_detection_ctrl1 = (0x35 :: u8)"
definition "RFM22_sync_word3 = (0x36 :: u8)"
definition "RFM22_sync_word2 = (0x37 :: u8)"
definition "RFM22_sync_word1 = (0x38 :: u8)"
definition "RFM22_sync_word0 = (0x39 :: u8)"
definition "RFM22_transmit_header3 = (0x3a :: u8)"
definition "RFM22_transmit_packet_length = (0x3e :: u8)"
definition "RFM22_check_header3 = (0x3f :: u8)"
definition "RFM22_header_enable3 = (0x43 :: u8)"
definition "RFM22_header_enable2 = (0x44 :: u8)"
definition "RFM22_header_enable1 = (0x45 :: u8)"
definition "RFM22_header_enable0 = (0x46 :: u8)"
definition "RFM22_tx_power = (0x6d :: u8)"
definition "RFM22_tx_data_rate1 = (0x6e :: u8)"
definition "RFM22_tx_data_rate0 = (0x6f :: u8)"
definition "RFM22_modulation_mode_control1 = (0x70 :: u8)"
definition "RFM22_modulation_mode_control2 = (0x71 :: u8)"
definition "RFM22_frequency_deviation = (0x72 :: u8)"
definition "RFM22_frequency_offset1 = (0x73 :: u8)"
definition "RFM22_frequency_offset2 = (0x74 :: u8)"
definition "RFM22_frequency_band_select = (0x75 :: u8)"
definition "RFM22_nominal_carrier_frequency1 = (0x76 :: u8)"
definition "RFM22_nominal_carrier_frequency0 = (0x77 :: u8)"
definition "RFM22_frequency_hopping_channel_select = (0x79 :: u8)"
definition "RFM22_frequency_hopping_step_size = (0x7a :: u8)"
definition "RFM22_rx_fifo_control = (0x7e :: u8)"
definition "RFM22_fifo_access = (0x7f :: u8)"

definition "RFM22_opfc1_xton = (0x01 :: u8)"
definition "RFM22_opfc1_rxon = (0x04 :: u8)"
definition "RFM22_opfc1_txon = (0x08 :: u8)"
definition "RFM22_ie1_enpkvalid = (0x02 :: u8)"
definition "RFM22_ie1_enpksent = (0x04 :: u8)"
definition "RFM22_gpio0_config_txstate = (0x12 :: u8)"
definition "RFM22_gpio0_config_rxstate = (0x15 :: u8)"
definition "RFM22_gpio1_config_txstate = (0x12 :: u8)"
definition "RFM22_gpio1_config_rxstate = (0x15 :: u8)"
definition "RFM22_io_port_default = (0x00 :: u8)"
definition "RFM22_fbs_sbse = (0x40 :: u8)"
definition "RFM22_fbs_hbsel = (0x20 :: u8)"
definition "RFM22_fb_mask = (0x1f :: u8)"

definition "RF22B_PWRSTATE_READY = RFM22_opfc1_xton"
definition "RF22B_PWRSTATE_RX = (RFM22_opfc1_rxon OR RFM22_opfc1_xton)"
definition "RF22B_PWRSTATE_TX = (RFM22_opfc1_txon OR RFM22_opfc1_xton)"
definition "RF22B_PACKET_SENT_INTERRUPT = RFM22_ie1_enpksent"
definition "RF22B_RX_PACKET_RECEIVED_IRQ = RFM22_ie1_enpkvalid"

subsection \<open>SPI read and write functions\<close>

text \<open>
  \<^verbatim>\<open>rfm22_write\<close> and \<^verbatim>\<open>rfm22_write_claim\<close> clock out \<^verbatim>\<open>{addr | 0x80, data}\<close>;
  \<^verbatim>\<open>rfm22_read\<close> and \<^verbatim>\<open>rfm22_read_claim\<close> clock out \<^verbatim>\<open>{addr & 0x7F, 0xFF}\<close> and return
  the second byte clocked in.
\<close>

definition rfm22_write :: "u8 \<Rightarrow> u8 \<Rightarrow> openlrs \<Rightarrow> openlrs" where
  "rfm22_write addr data s = s\<lparr>spi_log := spi_log s @ [[addr OR 0x80, data]]\<rparr>"

definition rfm22_read :: "inputs \<Rightarrow> u8 \<Rightarrow> openlrs \<Rightarrow> u8 \<times> openlrs" where
  "rfm22_read hw addr s = (regs hw addr, s\<lparr>spi_log := spi_log s @ [[addr AND 0x7F, 0xFF]]\<rparr>)"

text \<open>A run of \<^verbatim>\<open>rfm22_write\<close> calls, in order.\<close>

definition rfm22_writes :: "(u8 \<times> u8) list \<Rightarrow> openlrs \<Rightarrow> openlrs" where
  "rfm22_writes ws s = foldl (\<lambda>s (addr, data). rfm22_write addr data s) s ws"

text \<open>
  The two reads of the interrupt status registers into \<^verbatim>\<open>it_status1\<close> and
  \<^verbatim>\<open>it_status2\<close>, which \<^verbatim>\<open>init_rfm\<close>, \<^verbatim>\<open>to_rx_mode\<close>, \<^verbatim>\<open>rx_reset\<close> and
  \<^verbatim>\<open>tx_packet_async\<close> all perform.
\<close>

definition read_it_status :: "inputs \<Rightarrow> openlrs \<Rightarrow> openlrs" where
  "read_it_status hw s =
     (let (v1, s) = rfm22_read hw RFM22_interrupt_status1 s;
          s = s\<lparr>it_status1 := v1\<rparr>;
          (v2, s) = rfm22_read hw RFM22_interrupt_status2 s
      in s\<lparr>it_status2 := v2\<rparr>)"

subsection \<open>OpenLRS hardware access\<close>

definition rfmSetChannel :: "u8 \<Rightarrow> openlrs \<Rightarrow> openlrs option" where
  "rfmSetChannel ch s = do {
     let magicLSB = ucast (rf_magic (bind_data s) AND 0xff) XOR ch;
     h \<leftarrow> array_get (hopchannel (bind_data s)) (unat ch);
     Some (rfm22_writes
            [(RFM22_frequency_hopping_channel_select, h),
             (RFM22_transmit_header3 + 3, magicLSB),
             (RFM22_check_header3 + 3, magicLSB)] s)
   }"

definition rfmGetRSSI :: "inputs \<Rightarrow> openlrs \<Rightarrow> u8 \<times> openlrs" where
  "rfmGetRSSI hw s = rfm22_read hw 0x26 s"

definition rfmGetAFCC :: "inputs \<Rightarrow> openlrs \<Rightarrow> u16 \<times> openlrs" where
  "rfmGetAFCC hw s =
     (let (hi, s) = rfm22_read hw 0x2B s;
          (lo, s) = rfm22_read hw 0x2C s
      in (push_bit 2 (ucast hi) OR drop_bit 6 (ucast lo), s))"

definition setModemRegs :: "rfm22_modem_regs \<Rightarrow> openlrs \<Rightarrow> openlrs" where
  "setModemRegs r s =
     rfm22_writes
       [(RFM22_if_filter_bandwidth, r_1c r),
        (RFM22_afc_loop_gearshift_override, r_1d r),
        (RFM22_afc_timing_control, r_1e r),
        (RFM22_clk_recovery_oversampling_ratio, r_20 r),
        (RFM22_clk_recovery_offset2, r_21 r),
        (RFM22_clk_recovery_offset1, r_22 r),
        (RFM22_clk_recovery_offset0, r_23 r),
        (RFM22_clk_recovery_timing_loop_gain1, r_24 r),
        (RFM22_clk_recovery_timing_loop_gain0, r_25 r),
        (RFM22_afc_limiter, r_2a r),
        (RFM22_tx_data_rate1, r_6e r),
        (RFM22_tx_data_rate0, r_6f r),
        (RFM22_modulation_mode_control1, r_70 r),
        (RFM22_modulation_mode_control2, r_71 r),
        (RFM22_frequency_deviation, r_72 r)] s"

text \<open>
  The local variables \<^verbatim>\<open>hbsel\<close>, \<^verbatim>\<open>fb\<close> and \<^verbatim>\<open>fc\<close> of \<^verbatim>\<open>rfmSetCarrierFrequency\<close>,
  all \<^verbatim>\<open>uint16_t\<close>. \<^verbatim>\<open>f / 10000000 - 24\<close> is unsigned 32-bit arithmetic, cut to 16 bits
  by the assignment; \<^verbatim>\<open>(fb + 24) * 10000000\<close> is signed \<^verbatim>\<open>int\<close> arithmetic, undefined
  when the product exceeds \<^verbatim>\<open>INT_MAX\<close>; the subtraction from \<^verbatim>\<open>f\<close> and what follows are
  unsigned again.
\<close>

definition carrier_hbsel_fb_fc :: "u32 \<Rightarrow> (u16 \<times> u16 \<times> u16) option" where
  "carrier_hbsel_fb_fc f =
     (if f < 480000000 then
        (let fb = (ucast (f div 10000000 - 24) :: u16);
             prod = (uint fb + 24) * 10000000
         in if 2147483647 < prod then None
            else Some (0, fb, ucast ((f - word_of_int prod) * 4 div 625)))
      else
        (let fb = (ucast (f div 20000000 - 24) :: u16);
             prod = (uint fb + 24) * 20000000
         in if 2147483647 < prod then None
            else Some (1, fb, ucast ((f - word_of_int prod) * 2 div 625))))"

definition rfmSetCarrierFrequency :: "u32 \<Rightarrow> openlrs \<Rightarrow> openlrs option" where
  "rfmSetCarrierFrequency f s = do {
     (hbsel, fb, fc) \<leftarrow> carrier_hbsel_fb_fc f;
     Some (rfm22_writes
            [(RFM22_frequency_band_select,
                RFM22_fbs_sbse + (if hbsel \<noteq> 0 then RFM22_fbs_hbsel else 0)
                  + ucast (fb AND ucast RFM22_fb_mask)),
             (RFM22_nominal_carrier_frequency1, ucast (drop_bit 8 fc)),
             (RFM22_nominal_carrier_frequency0, ucast (fc AND 0xff))] s)
   }"

text \<open>
  The loop of \<^verbatim>\<open>init_rfm\<close> over the four header bytes:
  \<^verbatim>\<open>for (i = 0; i < 4; i++) { write(th3 + i, magic >> 24); write(ch3 + i, magic >> 24); magic <<= 8; }\<close>
\<close>

fun init_rfm_headers :: "u8 list \<Rightarrow> u32 \<Rightarrow> openlrs \<Rightarrow> openlrs" where
  "init_rfm_headers [] mg s = s"
| "init_rfm_headers (i # is) mg s =
     init_rfm_headers is (push_bit 8 mg)
       (rfm22_writes
          [(RFM22_transmit_header3 + i, ucast (drop_bit 24 mg AND 0xff)),
           (RFM22_check_header3 + i, ucast (drop_bit 24 mg AND 0xff))] s)"

definition init_rfm :: "build_config \<Rightarrow> inputs \<Rightarrow> bool \<Rightarrow> openlrs \<Rightarrow> openlrs option" where
  "init_rfm cfg hw isbind s = do {
     let s = read_it_status hw s;
     let s = rfm22_writes
               [(RFM22_interrupt_enable2, 0x00),
                (RFM22_op_and_func_ctrl1, RF22B_PWRSTATE_READY),
                (RFM22_xtal_osc_load_cap, 0x7f),
                (RFM22_cpu_output_clk, 0x05)] s;
     let s = (case gpio_dir s of
                GPIO0_TX_GPIO1_RX \<Rightarrow>
                  rfm22_writes [(RFM22_gpio0_config, RFM22_gpio0_config_txstate),
                                (RFM22_gpio1_config, RFM22_gpio1_config_rxstate)] s
              | GPIO0_RX_GPIO1_TX \<Rightarrow>
                  rfm22_writes [(RFM22_gpio0_config, RFM22_gpio0_config_rxstate),
                                (RFM22_gpio1_config, RFM22_gpio1_config_txstate)] s);
     let s = rfm22_writes
               [(RFM22_gpio2_config, 0xfd),
                (RFM22_io_port_config, RFM22_io_port_default)] s;
     r \<leftarrow> (if isbind then Some bind_params else modem_params_at (modem_params (bind_data s)));
     let s = setModemRegs r s;
     let s = rfm22_writes
               [(RFM22_data_access_control, 0x8c),
                (RFM22_header_control1, 0x0f),
                (RFM22_header_control2, 0x42),
                (RFM22_preamble_length,
                   if flags (bind_data s) AND DIVERSITY_ENABLED cfg \<noteq> 0 then 0x14 else 0x0a),
                (RFM22_preamble_detection_ctrl1, 0x2a),
                (RFM22_sync_word3, 0x2d),
                (RFM22_sync_word2, 0xd4),
                (RFM22_sync_word1, 0x00),
                (RFM22_sync_word0, 0x00)] s;
     let s = init_rfm_headers [0, 1, 2, 3]
               (if isbind then BIND_MAGIC cfg else rf_magic (bind_data s)) s;
     let s = rfm22_writes
               [(RFM22_header_enable3, 0xff),
                (RFM22_header_enable2, 0xff),
                (RFM22_header_enable1, 0xff),
                (RFM22_header_enable0, 0xff),
                (RFM22_tx_power, if isbind then BINDING_POWER cfg else rf_power (bind_data s)),
                (RFM22_frequency_hopping_channel_select, 0),
                (RFM22_frequency_hopping_step_size, rf_channel_spacing (bind_data s)),
                (RFM22_frequency_offset1, 0x00),
                (RFM22_frequency_offset2, 0x00)] s;
     rfmSetCarrierFrequency
       (if isbind then BINDING_FREQUENCY cfg else rf_frequency (bind_data s)) s
   }"

definition clearFIFO :: "openlrs \<Rightarrow> openlrs" where
  "clearFIFO s = rfm22_writes [(RFM22_op_and_func_ctrl2, 0x03), (RFM22_op_and_func_ctrl2, 0x00)] s"

definition rx_reset :: "inputs \<Rightarrow> openlrs \<Rightarrow> openlrs" where
  "rx_reset hw s =
     (let s = rfm22_writes [(RFM22_op_and_func_ctrl1, RF22B_PWRSTATE_READY),
                            (RFM22_rx_fifo_control, 36)] s;
          s = clearFIFO s;
          s = rfm22_writes [(RFM22_op_and_func_ctrl1, RF22B_PWRSTATE_RX),
                            (RFM22_interrupt_enable1, RF22B_RX_PACKET_RECEIVED_IRQ)] s
      in read_it_status hw s)"

definition to_rx_mode :: "inputs \<Rightarrow> openlrs \<Rightarrow> openlrs" where
  "to_rx_mode hw s =
     (let s = read_it_status hw s;
          s = rfm22_write RFM22_op_and_func_ctrl1 RF22B_PWRSTATE_READY s
      in rx_reset hw s)"

text \<open>\<^verbatim>\<open>tx_packet_async(dev, pkt, size)\<close>; \<open>pkt\<close> holds the \<^verbatim>\<open>size\<close> bytes.\<close>

definition tx_packet_async :: "inputs \<Rightarrow> u8 list \<Rightarrow> openlrs \<Rightarrow> openlrs" where
  "tx_packet_async hw pkt s =
     (let s = rfm22_write RFM22_transmit_packet_length (of_nat (length pkt)) s;
          s = rfm22_writes (map (\<lambda>b. (RFM22_fifo_access, b)) pkt) s;
          s = rfm22_write RFM22_interrupt_enable1 RF22B_PACKET_SENT_INTERRUPT s;
          s = read_it_status hw s;
          s = s\<lparr>tx_start := timeUs hw\<rparr>;
          s = rfm22_write RFM22_op_and_func_ctrl1 RF22B_PWRSTATE_TX s
      in s\<lparr>rf_mode := Transmit\<rparr>)"

subsection \<open>Device validation and the interrupt entry point\<close>

definition pios_openlrs_validate :: "build_config \<Rightarrow> openlrs \<Rightarrow> bool" where
  "pios_openlrs_validate cfg s \<longleftrightarrow> g_openlrs_dev_set s \<and> magic s = PIOS_OPENLRS_DEV_MAGIC cfg"

definition PIOS_OpenLRS_EXT_Int :: "build_config \<Rightarrow> openlrs \<Rightarrow> openlrs" where
  "PIOS_OpenLRS_EXT_Int cfg s =
     (let s = s\<lparr>irqs := irqs s + 1\<rparr> in
      if \<not> pios_openlrs_validate cfg s then s
      else if rf_mode s = Transmit then s\<lparr>rf_mode := Transmitted\<rparr>
      else if rf_mode s = Receive then s\<lparr>rf_mode := Received\<rparr>
      else s)"

text \<open>
  \<^verbatim>\<open>tx_packet\<close> starts the transmission and sleeps until the mode is no longer
  \<^verbatim>\<open>Transmit\<close> or 100 ms have passed. The mode changes only in the interrupt handler,
  which runs during the wait when \<open>sent_irq\<close> says so.
\<close>

definition tx_packet :: "build_config \<Rightarrow> inputs \<Rightarrow> u8 list \<Rightarrow> openlrs \<Rightarrow> openlrs" where
  "tx_packet cfg hw pkt s =
     (let s = tx_packet_async hw pkt s
      in if sent_irq hw then PIOS_OpenLRS_EXT_Int cfg s else s)"

subsection \<open>High level OpenLRS functions: binding\<close>

text \<open>
  The body of \<^verbatim>\<open>if (openlrs_dev->rf_mode == Received)\<close> in the loop of
  \<^verbatim>\<open>pios_openlrs_bind_receive\<close>. The first byte of the FIFO is read into \<^verbatim>\<open>rxb\<close>; after
  a \<^verbatim>\<open>'b'\<close> (0x62) the next \<^verbatim>\<open>sizeof(struct bind_data)\<close> bytes are transferred to the
  address of \<^verbatim>\<open>openlrs_dev->bind_data\<close>. The result is paired with \<open>True\<close> where the
  source executes \<^verbatim>\<open>return 1\<close>. The acknowledgement is the one byte \<^verbatim>\<open>'B'\<close> (0x42).
\<close>

definition bind_receive_packet ::
  "build_config \<Rightarrow> inputs \<Rightarrow> openlrs \<Rightarrow> (bool \<times> openlrs) option" where
  "bind_receive_packet cfg hw s =
     (let s = s\<lparr>spi_log := spi_log s @ [[0x7f], [0x00]]\<rparr>;
          rxb = fifo hw 0
      in if rxb = 0x62 then
           (let s = s\<lparr>spi_log := spi_log s @ [replicate (sizeof_bind_data cfg) 0xFF],
                      bind_data := decode_bind_data cfg
                                     (map (\<lambda>k. fifo hw (Suc k)) [0 ..< sizeof_bind_data cfg])\<rparr>
            in if version (bind_data s) = BINDING_VERSION cfg then
                 (let s = tx_packet cfg hw [0x42] s in
                  if length (hopchannel (bind_data s)) < OPENLRS_HOPCHANNEL_NUMELEM cfg then None
                  else
                    let binding = (bind_data s)
                          \<lparr>hopchannel :=
                             take (OPENLRS_HOPCHANNEL_NUMELEM cfg) (hopchannel (bind_data s))\<rparr>
                    in Some (True, s\<lparr>saved := saved s @ [binding]\<rparr>))
               else Some (False, rx_reset hw (s\<lparr>rf_mode := Receive\<rparr>)))
         else Some (False, rx_reset hw (s\<lparr>rf_mode := Receive\<rparr>)))"

text \<open>
  What happens while a polling loop runs: the radio raises its interrupt, or the loop
  makes one pass and the hardware answers with the given inputs.
\<close>

datatype event = Irq | Poll inputs

text \<open>
  The \<^verbatim>\<open>while\<close> loop of \<^verbatim>\<open>pios_openlrs_bind_receive\<close>, over the events of a finite
  stretch of time. The result carries \<open>Some r\<close> when the function has returned \<open>r\<close>, and
  \<open>None\<close> when the loop is still running after the last event.
\<close>

fun bind_receive_loop ::
  "build_config \<Rightarrow> u32 \<Rightarrow> u32 \<Rightarrow> event list \<Rightarrow> openlrs \<Rightarrow> (u8 option \<times> openlrs) option" where
  "bind_receive_loop cfg timeout start [] s = Some (None, s)"
| "bind_receive_loop cfg timeout start (Irq # es) s =
     bind_receive_loop cfg timeout start es (PIOS_OpenLRS_EXT_Int cfg s)"
| "bind_receive_loop cfg timeout start (Poll hw # es) s =
     (if timeout = 0 \<or> timeMs hw - start < timeout then
        (if rf_mode s = Received then
           (case bind_receive_packet cfg hw s of
              None \<Rightarrow> None
            | Some (True, s') \<Rightarrow> Some (Some 1, s')
            | Some (False, s') \<Rightarrow> bind_receive_loop cfg timeout start es s')
         else bind_receive_loop cfg timeout start es s)
      else Some (Some 0, s))"

definition pios_openlrs_bind_receive ::
  "build_config \<Rightarrow> u32 \<Rightarrow> inputs \<Rightarrow> event list \<Rightarrow> openlrs \<Rightarrow> (u8 option \<times> openlrs) option" where
  "pios_openlrs_bind_receive cfg timeout hw es s = do {
     s \<leftarrow> init_rfm cfg hw True s;
     let s = s\<lparr>rf_mode := Receive\<rparr>;
     let s = to_rx_mode hw s;
     bind_receive_loop cfg timeout (timeMs hw) es s
   }"

subsection \<open>High level OpenLRS functions: setup\<close>

text \<open>
  The loop of \<^verbatim>\<open>pios_openlrs_setup\<close> that counts the hop channels:
  \<^verbatim>\<open>while ((hopcount < MAXHOPS) && (hopchannel[hopcount] != 0)) hopcount++;\<close>
\<close>

function setup_count_hops :: "build_config \<Rightarrow> u8 list \<Rightarrow> u8 \<Rightarrow> u8 option" where
  "setup_count_hops cfg hc h =
     (if h < MAXHOPS cfg then
        (case array_get hc (unat h) of
           None \<Rightarrow> None
         | Some c \<Rightarrow> if c \<noteq> 0 then setup_count_hops cfg hc (h + 1) else Some h)
      else Some h)"
  by pat_completeness auto
termination
proof (relation "measure (\<lambda>(cfg, hc, h). unat (MAXHOPS cfg) - unat h)")
  show "wf (measure (\<lambda>(cfg, hc, h). unat (MAXHOPS cfg) - unat h))" by simp
next
  fix cfg :: build_config and hc :: "u8 list" and h c :: u8
  assume a: "h < MAXHOPS cfg"
  then have l: "unat h < unat (MAXHOPS cfg)" by (simp only: word_less_nat_alt)
  have "unat (MAXHOPS cfg) < 256" using unsigned_less [of "MAXHOPS cfg"] by simp
  with l have "unat (h + 1) = unat h + 1"
    by (subst unat_add_lem [THEN iffD1]) auto
  with l show "((cfg, hc, h + 1), cfg, hc, h) \<in> measure (\<lambda>(cfg, hc, h). unat (MAXHOPS cfg) - unat h)"
    by simp
qed

declare setup_count_hops.simps [simp del]

text \<open>\<^verbatim>\<open>pios_openlrs_setup\<close> from \<^verbatim>\<open>"Entering normal mode"\<close> on.\<close>

definition setup_normal_mode :: "build_config \<Rightarrow> inputs \<Rightarrow> openlrs \<Rightarrow> openlrs option" where
  "setup_normal_mode cfg hw s = do {
     s \<leftarrow> init_rfm cfg hw False s;
     let s = s\<lparr>rf_channel := 0\<rparr>;
     s \<leftarrow> rfmSetChannel (rf_channel s) s;
     h \<leftarrow> setup_count_hops cfg (hopchannel (bind_data s)) 0;
     let s = s\<lparr>hopcount := h\<rparr>;
     let s = s\<lparr>rf_mode := Receive\<rparr>;
     let s = to_rx_mode hw s;
     Some (s\<lparr>link_acquired := False, lastPacketTimeUs := timeUs hw\<rparr>)
   }"

text \<open>
  \<^verbatim>\<open>pios_openlrs_setup(dev, bind)\<close>. With \<^verbatim>\<open>bind\<close> (here \<open>bnd\<close>) it first waits for a bind packet, without
  a timeout; \<open>hw0\<close> and \<open>es\<close> are the inputs and events of that wait, \<open>hw1\<close> the inputs of
  the rest. The result is \<open>Some (False, s)\<close> when the wait has not ended with the events.
\<close>

definition pios_openlrs_setup ::
  "build_config \<Rightarrow> bool \<Rightarrow> inputs \<Rightarrow> event list \<Rightarrow> inputs \<Rightarrow> openlrs \<Rightarrow> (bool \<times> openlrs) option" where
  "pios_openlrs_setup cfg bnd hw0 es hw1 s = do {
     (r, s) \<leftarrow> (if bnd then pios_openlrs_bind_receive cfg 0 hw0 es s else Some (Some 0, s));
     case r of
       None \<Rightarrow> Some (False, s)
     | Some _ \<Rightarrow> do { s \<leftarrow> setup_normal_mode cfg hw1 s; Some (True, s) }
   }"

subsection \<open>High level OpenLRS functions: the receive loop\<close>

text \<open>
  \<^verbatim>\<open>pios_openlrs_rx_loop\<close> in the order of its source: the lock-up check, the drain of a
  received packet, the RSSI sample, the loss and slow-hop logic, the hop. The operands
  of \<^verbatim>\<open>&&\<close> are evaluated left to right and only as far as needed, so
  \<^verbatim>\<open>getInterval\<close> is called only where the source calls it.
\<close>

definition rx_loop_lockup :: "build_config \<Rightarrow> inputs \<Rightarrow> openlrs \<Rightarrow> openlrs option" where
  "rx_loop_lockup cfg hw s =
     (let (v, s) = rfm22_read hw 0x0C s
      in if v = 0 then do { s \<leftarrow> init_rfm cfg hw False s; Some (to_rx_mode hw s) }
         else Some s)"

definition rx_loop_drain :: "build_config \<Rightarrow> inputs \<Rightarrow> openlrs \<Rightarrow> openlrs option" where
  "rx_loop_drain cfg hw s =
     (if rf_mode s = Received then
        (let packet_size = unat (getPacketSize (bind_data s)) in
         if length (rx_buf s) < packet_size then None
         else do {
           let s = s\<lparr>spi_log := spi_log s @ [[0x7F], replicate packet_size 0xFF],
                      rx_buf := map (fifo hw) [0 ..< packet_size] @ drop packet_size (rx_buf s)\<rparr>;
           let (afcc, s) = rfmGetAFCC hw s;
           let s = s\<lparr>lastAFCCvalue := afcc\<rparr>;
           let s = s\<lparr>lastPacketTimeUs := timeTemp hw\<rparr>;
           let s = s\<lparr>numberOfLostPackets := 0\<rparr>;
           let s = s\<lparr>linkQuality := push_bit 1 (linkQuality s)\<rparr>;
           let s = s\<lparr>linkQuality := linkQuality s OR 1\<rparr>;
           b0 \<leftarrow> array_get (rx_buf s) 0;
           s \<leftarrow> (if b0 AND 0x3e = 0x00 then do {
                     PPM \<leftarrow> unpackChannels (flags (bind_data s) AND 7) (ppm s) (drop 1 (rx_buf s));
                     Some (s\<lparr>ppm := PPM\<rparr>)
                   } else Some s);
           let s = s\<lparr>link_acquired := True\<rparr>;
           let s = s\<lparr>rf_mode := Receive\<rparr>;
           let s = rx_reset hw s;
           Some (s\<lparr>willhop := True\<rparr>)
         })
      else Some s)"

definition rx_loop_rssi :: "build_config \<Rightarrow> inputs \<Rightarrow> openlrs \<Rightarrow> openlrs option" where
  "rx_loop_rssi cfg hw s =
     (if numberOfLostPackets s < 2 \<and> lastRSSITimeUs s \<noteq> lastPacketTimeUs s then do {
        iv \<leftarrow> getInterval cfg (bind_data s);
        if timeUs hw - lastPacketTimeUs s > iv - 1500 then
          (let s = s\<lparr>lastRSSITimeUs := lastPacketTimeUs s\<rparr>;
               (v, s) = rfmGetRSSI hw s;
               s = s\<lparr>lastRSSIvalue := v\<rparr>;
               s = s\<lparr>RSSI_sum := RSSI_sum s + ucast (lastRSSIvalue s)\<rparr>;
               s = s\<lparr>RSSI_count := RSSI_count s + 1\<rparr>
           in if RSSI_count s > 8 then
                (let s = s\<lparr>RSSI_sum := RSSI_sum s div ucast (RSSI_count s)\<rparr>;
                     s = s\<lparr>smoothRSSI :=
                            of_nat ((unat (smoothRSSI s) * 3 + unat (RSSI_sum s) * 1) div 4)\<rparr>;
                     s = s\<lparr>RSSI_sum := 0\<rparr>
                 in Some (s\<lparr>RSSI_count := 0\<rparr>))
              else Some s)
        else Some s
      } else Some s)"

definition rx_loop_link :: "build_config \<Rightarrow> inputs \<Rightarrow> openlrs \<Rightarrow> openlrs option" where
  "rx_loop_link cfg hw s =
     (if link_acquired s then do {
        lost \<leftarrow> (if numberOfLostPackets s < ucast (hopcount s) then do {
                   iv \<leftarrow> getInterval cfg (bind_data s);
                   Some (timeUs hw - lastPacketTimeUs s > iv + 1000)
                 } else Some False);
        if lost then do {
          let s = s\<lparr>linkQuality := push_bit 1 (linkQuality s)\<rparr>;
          let s = s\<lparr>willhop := True\<rparr>;
          let s = (if numberOfLostPackets s = 0
                   then s\<lparr>linkLossTimeMs := timeMs hw, nextBeaconTimeMs := 0\<rparr> else s);
          let s = s\<lparr>numberOfLostPackets := numberOfLostPackets s + 1\<rparr>;
          iv \<leftarrow> getInterval cfg (bind_data s);
          let s = s\<lparr>lastPacketTimeUs := lastPacketTimeUs s + iv\<rparr>;
          Some (s\<lparr>willhop := True\<rparr>)
        } else do {
          slow \<leftarrow> (if numberOfLostPackets s = ucast (hopcount s) then do {
                     iv \<leftarrow> getInterval cfg (bind_data s);
                     Some (timeUs hw - lastPacketTimeUs s > iv * ucast (hopcount s))
                   } else Some False);
          if slow then
            Some (s\<lparr>linkQuality := 0, willhop := True, smoothRSSI := 0,
                    lastPacketTimeUs := timeUs hw\<rparr>)
          else Some s
        }
      } else do {
        iv \<leftarrow> getInterval cfg (bind_data s);
        if timeUs hw - lastPacketTimeUs s > iv * ucast (hopcount s) then
          Some (s\<lparr>lastPacketTimeUs := timeUs hw, willhop := True\<rparr>)
        else Some s
      })"

definition rx_loop_hop :: "build_config \<Rightarrow> openlrs \<Rightarrow> openlrs option" where
  "rx_loop_hop cfg s =
     (if willhop s then do {
        let s = s\<lparr>rf_channel := rf_channel s + 1\<rparr>;
        wrap \<leftarrow> (if rf_channel s = MAXHOPS cfg then Some True
                 else do {
                   c \<leftarrow> array_get (hopchannel (bind_data s)) (unat (rf_channel s));
                   Some (c = 0)
                 });
        let s = (if wrap then s\<lparr>rf_channel := 0\<rparr> else s);
        s \<leftarrow> rfmSetChannel (rf_channel s) s;
        Some (s\<lparr>willhop := False\<rparr>)
      } else Some s)"

definition pios_openlrs_rx_loop :: "build_config \<Rightarrow> inputs \<Rightarrow> openlrs \<Rightarrow> openlrs option" where
  "pios_openlrs_rx_loop cfg hw s = do {
     s \<leftarrow> rx_loop_lockup cfg hw s;
     s \<leftarrow> rx_loop_drain cfg hw s;
     s \<leftarrow> rx_loop_rssi cfg hw s;
     s \<leftarrow> rx_loop_link cfg hw s;
     rx_loop_hop cfg s
   }"

text \<open>
  The \<^verbatim>\<open>while (1)\<close> loop of \<^verbatim>\<open>pios_openlrs_task\<close> over the events of a finite stretch of
  time; the interrupt handler runs between two passes.
\<close>

fun task_loop :: "build_config \<Rightarrow> event list \<Rightarrow> openlrs \<Rightarrow> openlrs option" where
  "task_loop cfg [] s = Some s"
| "task_loop cfg (Irq # es) s = task_loop cfg es (PIOS_OpenLRS_EXT_Int cfg s)"
| "task_loop cfg (Poll hw # es) s =
     (case pios_openlrs_rx_loop cfg hw s of None \<Rightarrow> None | Some s' \<Rightarrow> task_loop cfg es s')"

subsection \<open>The specification's words\<close>

text \<open>
  The interval as the specification states it, in exact arithmetic on natural numbers:
  \<open>bytes_to_usec(bytes, bps, div) = (bytes + (div ? 20 : 15)) * 8200000 / bps\<close>, the
  nominal interval \<open>bytes_to_usec(pkt) + 2000\<close>, plus \<open>bytes_to_usec(TELEMETRY_PACKETSIZE)
  + 1000\<close> with telemetry, and the rounding up to whole milliseconds.
\<close>

definition bytes_to_usec :: "nat \<Rightarrow> nat \<Rightarrow> bool \<Rightarrow> nat" where
  "bytes_to_usec bytes b dv = (bytes + (if dv then 20 else 15)) * 8200000 div b"

definition interval_nominal :: "build_config \<Rightarrow> bind_data \<Rightarrow> nat \<Rightarrow> nat" where
  "interval_nominal cfg bd b =
     (let dv = (flags bd AND DIVERSITY_ENABLED cfg \<noteq> 0) in
      bytes_to_usec (unat (getPacketSize bd)) b dv + 2000 +
      (if flags bd AND TELEMETRY_MASK cfg \<noteq> 0
       then bytes_to_usec (unat (TELEMETRY_PACKETSIZE cfg)) b dv + 1000 else 0))"

definition round_up_ms :: "nat \<Rightarrow> nat" where
  "round_up_ms x = ((x + 999) div 1000) * 1000"

subsection \<open>A build configuration and inputs for evaluation\<close>

text \<open>
  An example of the constants of \<^verbatim>\<open>pios_openlrs_priv.h\<close>: 24 hop channels, the structure
  \<^verbatim>\<open>bind_data\<close> packed in the order of its fields with little-endian 32-bit values
  (41 bytes), no 50 Hz limit. The theorems below hold for every configuration; this one
  serves to evaluate the model at concrete inputs.
\<close>

definition le32 :: "u8 list \<Rightarrow> u32" where
  "le32 bs = ucast (bs ! 0) OR push_bit 8 (ucast (bs ! 1)) OR push_bit 16 (ucast (bs ! 2))
             OR push_bit 24 (ucast (bs ! 3))"

definition decode_packed :: "u8 list \<Rightarrow> bind_data" where
  "decode_packed bs =
     \<lparr> version = bs ! 0,
       serial_baudrate = le32 (take 4 (drop 1 bs)),
       rf_frequency = le32 (take 4 (drop 5 bs)),
       rf_magic = le32 (take 4 (drop 9 bs)),
       rf_power = bs ! 13,
       rf_channel_spacing = bs ! 14,
       hopchannel = take 24 (drop 15 bs),
       modem_params = bs ! 39,
       flags = bs ! 40 \<rparr>"

definition example_config :: build_config where
  "example_config =
     \<lparr> MAXHOPS = 24,
       BINDING_VERSION = 0x38,
       BINDING_FREQUENCY = 435000000,
       BINDING_POWER = 0x06,
       BIND_MAGIC = 0xDEC1C195,
       TELEMETRY_MASK = 0x18,
       DIVERSITY_ENABLED = 0x80,
       TELEMETRY_PACKETSIZE = 9,
       LIMIT_RATE_TO_50HZ = False,
       OPENLRS_HOPCHANNEL_NUMELEM = 24,
       PIOS_OPENLRS_DEV_MAGIC = 0x18c97ab6,
       sizeof_bind_data = 41,
       decode_bind_data = decode_packed \<rparr>"

text \<open>The same configuration built with \<^verbatim>\<open>LIMIT_RATE_TO_50HZ\<close> defined.\<close>

definition example_config_50hz :: build_config where
  "example_config_50hz = example_config\<lparr>LIMIT_RATE_TO_50HZ := True\<rparr>"

text \<open>
  Binding data with six hop channels; \<open>fl\<close> are the flags and \<open>mp\<close> the index of the
  modem parameters.
\<close>

definition example_bind_data :: "u8 \<Rightarrow> u8 \<Rightarrow> bind_data" where
  "example_bind_data fl mp =
     \<lparr> version = 0x38,
       serial_baudrate = 115200,
       rf_frequency = 433920000,
       rf_magic = 0xDEADFEED,
       rf_power = 7,
       rf_channel_spacing = 5,
       hopchannel = [22, 10, 19, 34, 49, 41] @ replicate 18 0,
       modem_params = mp,
       flags = fl \<rparr>"

text \<open>
  The state \<^verbatim>\<open>PIOS_OpenLRS_Init\<close> leaves behind for binding data \<open>bd\<close>: the device
  allocated and valid, the file-scope variables zero, nothing transferred yet.
\<close>

definition example_state :: "bind_data \<Rightarrow> openlrs" where
  "example_state bd =
     \<lparr> magic = 0x18c97ab6,
       gpio_dir = GPIO0_TX_GPIO1_RX,
       bind_data = bd,
       rf_mode = Available,
       rf_channel = 0,
       link_acquired = False,
       rx_buf = replicate 64 0,
       ppm = replicate 16 0,
       it_status1 = 0,
       it_status2 = 0,
       g_openlrs_dev_set = True,
       hopcount = 0,
       lastPacketTimeUs = 0,
       numberOfLostPackets = 0,
       lastAFCCvalue = 0,
       linkQuality = 0,
       lastRSSITimeUs = 0,
       lastRSSIvalue = 0,
       RSSI_sum = 0,
       RSSI_count = 0,
       smoothRSSI = 0,
       willhop = False,
       nextBeaconTimeMs = 0,
       linkLossTimeMs = 0,
       irqs = 0,
       tx_start = 0,
       spi_log = [],
       saved = [] \<rparr>"

text \<open>
  Hardware inputs: every register reads \<open>0x15\<close> (so the lock-up check passes), the FIFO
  delivers the bytes \<open>bs\<close> and then zeros, the clocks read \<open>us\<close> and \<open>ms\<close>.
\<close>

definition example_inputs :: "u8 list \<Rightarrow> u32 \<Rightarrow> u32 \<Rightarrow> inputs" where
  "example_inputs bs us ms =
     \<lparr> regs = (\<lambda>a. 0x15),
       fifo = (\<lambda>n. if n < length bs then bs ! n else 0),
       timeTemp = us,
       timeUs = us,
       timeMs = ms,
       sent_irq = True \<rparr>"

text \<open>
  The carrier synthesis as the specification states it, in exact arithmetic:
  \<open>hbsel\<close> is 0 below 480 MHz and 1 otherwise, \<open>fb = f / (10\<cdot>10\<^sup>6\<cdot>(1 + hbsel)) - 24\<close> and
  \<open>fc = (f - (fb + 24)\<cdot>step)\<cdot>(4 / (1 + hbsel)) / 625\<close> with the band step
  \<open>10\<cdot>10\<^sup>6\<cdot>(1 + hbsel)\<close>.
\<close>

definition carrier_exact :: "nat \<Rightarrow> nat \<times> nat \<times> nat" where
  "carrier_exact f =
     (let hbsel = (if f < 480000000 then 0 else 1);
          step = 10000000 * (1 + hbsel);
          fb = f div step - 24;
          fc = (f - (fb + 24) * step) * (4 div (1 + hbsel)) div 625
      in (hbsel, fb, fc))"

subsection \<open>Auxiliary notions for the proofs\<close>

text \<open>
  The bytes on the wire for a run of register writes, and a state with the traces of
  the hardware access (the SPI log and the two interrupt status bytes) blanked: two
  states with the same \<open>no_hw\<close> differ in nothing else.
\<close>

definition wire :: "(u8 \<times> u8) list \<Rightarrow> u8 list list" where
  "wire ws = map (\<lambda>(addr, data). [addr OR 0x80, data]) ws"

definition no_hw :: "openlrs \<Rightarrow> openlrs" where
  "no_hw s = s\<lparr>it_status1 := 0, it_status2 := 0, spi_log := []\<rparr>"

text \<open>
  The channel values as the specification states them: channel \<open>k\<close> of a group of five
  bytes is \<open>((byte4 >> 2k) & 3) << 8 | byte_k\<close>, and a coarse channel taken from the bit
  pair at shift \<open>sh\<close> of the trailing byte is \<open>((byte >> sh) & 3) * 333 + 12\<close>.
  \<open>unpackChannels_claimed\<close> is the decoding in the words of claim C3: \<open>config / 2\<close> groups,
  then for an odd \<open>config\<close> four coarse channels, channel \<open>k\<close> from shift \<open>2k\<close>.
\<close>

definition ppm_fine :: "u8 \<Rightarrow> u8 \<Rightarrow> nat \<Rightarrow> s16" where
  "ppm_fine byte4 byte_k k = push_bit 8 (drop_bit (2 * k) (ucast byte4) AND 3) OR ucast byte_k"

definition ppm_coarse :: "u8 \<Rightarrow> nat \<Rightarrow> s16" where
  "ppm_coarse byte sh = (drop_bit sh (ucast byte) AND 3) * 333 + 12"

definition unpackChannels_claimed :: "u8 \<Rightarrow> s16 list \<Rightarrow> u8 list \<Rightarrow> s16 list" where
  "unpackChannels_claimed config PPM p =
     (let n = unat config div 2 in
      map (\<lambda>j. if j < 4 * n
                then ppm_fine (p ! (5 * (j div 4) + 4)) (p ! (5 * (j div 4) + j mod 4)) (j mod 4)
                else if odd (unat config) \<and> j < 4 * n + 4
                then ppm_coarse (p ! (5 * n)) (2 * (j - 4 * n))
                else PPM ! j)
        [0 ..< length PPM])"

text \<open>
  A bind packet as the FIFO delivers it: the byte \<^verbatim>\<open>'b'\<close>, then the 41 bytes of a packed
  \<^verbatim>\<open>bind_data\<close> with version \<open>ver\<close>, 433.92 MHz (\<open>0x19DD1800\<close>), six hop channels, the
  modem parameter index \<open>mp\<close> and the flags 2.
\<close>

definition example_bind_packet :: "u8 \<Rightarrow> u8 \<Rightarrow> u8 list" where
  "example_bind_packet ver mp =
     [0x62, ver, 0x00, 0xC2, 0x01, 0x00, 0x00, 0x18, 0xDD, 0x19, 0xED, 0xFE, 0xAD, 0xDE, 7, 5,
      22, 10, 19, 34, 49, 41] @ replicate 18 0 @ [mp, 2]"

text \<open>
  The hop count in the words of the specification: the number of entries of
  \<^verbatim>\<open>hopchannel\<close> before the zero terminator, at most \<open>MAXHOPS\<close>.
\<close>

definition hop_count :: "build_config \<Rightarrow> u8 list \<Rightarrow> nat" where
  "hop_count cfg hc = length (takeWhile (\<lambda>c. c \<noteq> 0) (take (unat (MAXHOPS cfg)) hc))"

text \<open>
  What every part of a pass of the receive loop before the hop leaves alone: the channel
  index, the hop count, the binding data, the sizes of the two buffers; and
  \<open>link_acquired\<close> once it is set.
\<close>

definition keeps_link :: "openlrs \<Rightarrow> openlrs \<Rightarrow> bool" where
  "keeps_link s s' \<longleftrightarrow>
     rf_channel s' = rf_channel s \<and> hopcount s' = hopcount s \<and> bind_data s' = bind_data s \<and>
     length (rx_buf s') = length (rx_buf s) \<and> length (ppm s') = length (ppm s) \<and>
     (link_acquired s \<longrightarrow> link_acquired s')"

text \<open>
  States in which no part of the receive loop leaves the defined behaviour of C: the
  index of the modem parameters is inside the table, the carrier frequency is in the
  range in which \<^verbatim>\<open>rfmSetCarrierFrequency\<close> does not overflow, \<^verbatim>\<open>hopchannel\<close> has
  \<open>MAXHOPS\<close> entries, and the receive buffer and the channel array are large enough for
  the packet and the channels that the flags select.
\<close>

definition well_formed :: "build_config \<Rightarrow> openlrs \<Rightarrow> bool" where
  "well_formed cfg s \<longleftrightarrow>
     unat (modem_params (bind_data s)) < 5 \<and>
     240000000 \<le> unat (rf_frequency (bind_data s)) \<and>
     unat (rf_frequency (bind_data s)) < 2160000000 \<and>
     length (hopchannel (bind_data s)) = unat (MAXHOPS cfg) \<and>
     22 \<le> length (rx_buf s) \<and>
     (let c = unat (flags (bind_data s) AND 7)
      in 4 * Suc (c div 2) + 4 * (c mod 2) \<le> length (ppm s))"

section \<open>What the hardware access functions change\<close>

text \<open>
  Register writes only extend the SPI log; the reads of the interrupt status also
  store the two values read.
\<close>

lemma rfm22_writes_eq: "rfm22_writes ws s = s\<lparr>spi_log := spi_log s @ wire ws\<rparr>"
proof (induction ws arbitrary: s)
  case Nil
  show ?case by (simp add: rfm22_writes_def wire_def)
next
  case (Cons w ws)
  obtain a d where w: "w = (a, d)" by (cases w)
  have "rfm22_writes (w # ws) s = rfm22_writes ws (rfm22_write a d s)"
    by (simp add: rfm22_writes_def w)
  also have "\<dots> = (rfm22_write a d s)\<lparr>spi_log := spi_log (rfm22_write a d s) @ wire ws\<rparr>"
    by (rule Cons.IH)
  also have "\<dots> = s\<lparr>spi_log := spi_log s @ wire (w # ws)\<rparr>"
    by (simp add: rfm22_write_def wire_def w)
  finally show ?case .
qed

lemma rfm22_write_eq: "rfm22_write a d s = s\<lparr>spi_log := spi_log s @ wire [(a, d)]\<rparr>"
  by (simp add: rfm22_write_def wire_def)

lemma read_it_status_eq:
  "read_it_status hw s =
     s\<lparr>it_status1 := regs hw RFM22_interrupt_status1,
       it_status2 := regs hw RFM22_interrupt_status2,
       spi_log := spi_log s @ [[RFM22_interrupt_status1 AND 0x7F, 0xFF],
                               [RFM22_interrupt_status2 AND 0x7F, 0xFF]]\<rparr>"
  by (simp add: read_it_status_def rfm22_read_def)

lemma no_hw_fields:
  assumes "no_hw s' = no_hw s"
  shows "magic s' = magic s" "gpio_dir s' = gpio_dir s" "bind_data s' = bind_data s"
    "rf_mode s' = rf_mode s" "rf_channel s' = rf_channel s" "link_acquired s' = link_acquired s"
    "rx_buf s' = rx_buf s" "ppm s' = ppm s" "g_openlrs_dev_set s' = g_openlrs_dev_set s"
    "hopcount s' = hopcount s" "lastPacketTimeUs s' = lastPacketTimeUs s"
    "numberOfLostPackets s' = numberOfLostPackets s" "lastAFCCvalue s' = lastAFCCvalue s"
    "linkQuality s' = linkQuality s" "lastRSSITimeUs s' = lastRSSITimeUs s"
    "lastRSSIvalue s' = lastRSSIvalue s" "RSSI_sum s' = RSSI_sum s"
    "RSSI_count s' = RSSI_count s" "smoothRSSI s' = smoothRSSI s" "willhop s' = willhop s"
    "nextBeaconTimeMs s' = nextBeaconTimeMs s" "linkLossTimeMs s' = linkLossTimeMs s"
    "irqs s' = irqs s" "tx_start s' = tx_start s" "saved s' = saved s"
proof -
  have f: "\<And>g. g (no_hw s') = g (no_hw s)" using assms by simp
  show "magic s' = magic s" using f [of magic] by (simp add: no_hw_def)
  show "gpio_dir s' = gpio_dir s" using f [of gpio_dir] by (simp add: no_hw_def)
  show "bind_data s' = bind_data s" using f [of bind_data] by (simp add: no_hw_def)
  show "rf_mode s' = rf_mode s" using f [of rf_mode] by (simp add: no_hw_def)
  show "rf_channel s' = rf_channel s" using f [of rf_channel] by (simp add: no_hw_def)
  show "link_acquired s' = link_acquired s" using f [of link_acquired] by (simp add: no_hw_def)
  show "rx_buf s' = rx_buf s" using f [of rx_buf] by (simp add: no_hw_def)
  show "ppm s' = ppm s" using f [of ppm] by (simp add: no_hw_def)
  show "g_openlrs_dev_set s' = g_openlrs_dev_set s"
    using f [of g_openlrs_dev_set] by (simp add: no_hw_def)
  show "hopcount s' = hopcount s" using f [of hopcount] by (simp add: no_hw_def)
  show "lastPacketTimeUs s' = lastPacketTimeUs s"
    using f [of lastPacketTimeUs] by (simp add: no_hw_def)
  show "numberOfLostPackets s' = numberOfLostPackets s"
    using f [of numberOfLostPackets] by (simp add: no_hw_def)
  show "lastAFCCvalue s' = lastAFCCvalue s" using f [of lastAFCCvalue] by (simp add: no_hw_def)
  show "linkQuality s' = linkQuality s" using f [of linkQuality] by (simp add: no_hw_def)
  show "lastRSSITimeUs s' = lastRSSITimeUs s" using f [of lastRSSITimeUs] by (simp add: no_hw_def)
  show "lastRSSIvalue s' = lastRSSIvalue s" using f [of lastRSSIvalue] by (simp add: no_hw_def)
  show "RSSI_sum s' = RSSI_sum s" using f [of RSSI_sum] by (simp add: no_hw_def)
  show "RSSI_count s' = RSSI_count s" using f [of RSSI_count] by (simp add: no_hw_def)
  show "smoothRSSI s' = smoothRSSI s" using f [of smoothRSSI] by (simp add: no_hw_def)
  show "willhop s' = willhop s" using f [of willhop] by (simp add: no_hw_def)
  show "nextBeaconTimeMs s' = nextBeaconTimeMs s"
    using f [of nextBeaconTimeMs] by (simp add: no_hw_def)
  show "linkLossTimeMs s' = linkLossTimeMs s" using f [of linkLossTimeMs] by (simp add: no_hw_def)
  show "irqs s' = irqs s" using f [of irqs] by (simp add: no_hw_def)
  show "tx_start s' = tx_start s" using f [of tx_start] by (simp add: no_hw_def)
  show "saved s' = saved s" using f [of saved] by (simp add: no_hw_def)
qed

lemma no_hw_writes: "no_hw (rfm22_writes ws s) = no_hw s"
  by (simp add: rfm22_writes_eq no_hw_def)

lemma no_hw_write: "no_hw (rfm22_write a d s) = no_hw s"
  by (simp add: rfm22_write_eq no_hw_def)

lemma no_hw_read: "no_hw (snd (rfm22_read hw a s)) = no_hw s"
  by (simp add: rfm22_read_def no_hw_def)

lemma no_hw_read_it_status: "no_hw (read_it_status hw s) = no_hw s"
  by (simp add: read_it_status_eq no_hw_def)

lemma no_hw_rx_reset: "no_hw (rx_reset hw s) = no_hw s"
  by (simp add: rx_reset_def clearFIFO_def Let_def no_hw_read_it_status no_hw_writes)

lemma no_hw_to_rx_mode: "no_hw (to_rx_mode hw s) = no_hw s"
  by (simp add: to_rx_mode_def Let_def no_hw_rx_reset no_hw_write no_hw_read_it_status)

lemma no_hw_rfmSetChannel: "rfmSetChannel ch s = Some s' \<Longrightarrow> no_hw s' = no_hw s"
  by (auto simp: rfmSetChannel_def Let_def no_hw_writes bind_eq_Some_conv)

lemma no_hw_rfmSetCarrierFrequency:
  "rfmSetCarrierFrequency f s = Some s' \<Longrightarrow> no_hw s' = no_hw s"
  by (auto simp: rfmSetCarrierFrequency_def no_hw_writes bind_eq_Some_conv)

lemma no_hw_init_rfm_headers: "no_hw (init_rfm_headers is mg s) = no_hw s"
  by (induction "is" arbitrary: mg s) (simp_all add: no_hw_writes)

lemma no_hw_init_rfm:
  assumes "init_rfm cfg hw isbind s = Some s'"
  shows "no_hw s' = no_hw s"
  using assms
  by (auto simp: init_rfm_def Let_def bind_eq_Some_conv setModemRegs_def no_hw_writes
        no_hw_read_it_status no_hw_init_rfm_headers
      split: gpio_direction.splits if_splits dest!: no_hw_rfmSetCarrierFrequency)

section \<open>Properties\<close>

subsection \<open>The packet interval\<close>

lemma unat_BYTES:
  assumes "unat bytes \<le> 255"
  shows "unat (BYTES_AT_BAUD_TO_USEC bytes b dv) = bytes_to_usec (unat bytes) (unat b) dv"
proof -
  let ?c = "(if dv then 20 else 15) :: u32"
  have c: "unat ?c = (if dv then 20 else 15)" by simp
  have 1: "unat (bytes + ?c) = unat bytes + unat ?c"
    using assms by (subst unat_add_lem [THEN iffD1]) (auto simp: c)
  have 2: "unat ((bytes + ?c) * 8200000) = unat (bytes + ?c) * 8200000"
    using assms 1 c by (subst unat_mult_lem [THEN iffD1]) (auto)
  show ?thesis
    unfolding BYTES_AT_BAUD_TO_USEC_def bytes_to_usec_def
    by (simp only: unat_div 2 1 c)
qed

lemma nat_less_5_cases: "(n::nat) < 5 \<Longrightarrow> n \<in> {0, 1, 2, 3, 4}"
  by auto

lemma nat_less_8_cases: "(n::nat) < 8 \<Longrightarrow> n \<in> {0, 1, 2, 3, 4, 5, 6, 7}"
  by auto

lemma modem_params_at_Some_iff: "(\<exists>r. modem_params_at idx = Some r) \<longleftrightarrow> unat idx < 5"
  by (simp add: modem_params_at_def array_get_def modem_params_tab_def)

lemma modem_params_at_bps:
  assumes "modem_params_at idx = Some r"
  shows "4800 \<le> unat (bps r) \<and> unat (bps r) \<le> 125000"
proof -
  from assms have lt: "unat idx < 5" and r: "r = modem_params_tab ! unat idx"
    by (auto simp: modem_params_at_def array_get_def modem_params_tab_def split: if_splits)
  from nat_less_5_cases [OF lt] show ?thesis
    unfolding r by (auto simp: modem_params_tab_def mk_modem_regs_def)
qed

lemma and7_less: "unat ((x::u8) AND 7) < 8"
proof -
  have "x AND 7 \<le> 7" by (rule word_and_le1)
  then have "unat (x AND 7) \<le> unat (7::u8)" by (simp only: word_le_nat_alt)
  then show ?thesis by simp
qed

lemma getPacketSize_le: "unat (getPacketSize bd) \<le> 21"
  using nat_less_8_cases [OF and7_less [of "flags bd"]]
  by (auto simp: getPacketSize_def pktsizes_def)

lemma bytes_to_usec_le:
  assumes "bytes \<le> 255" "4800 \<le> b"
  shows "bytes_to_usec bytes b dv \<le> 469791"
proof -
  have "(bytes + (if dv then 20 else 15)) * 8200000 \<le> 275 * 8200000"
    using assms(1) by (intro mult_le_mono1) auto
  then have "bytes_to_usec bytes b dv \<le> (275 * 8200000) div b"
    unfolding bytes_to_usec_def by (rule div_le_mono)
  also have "\<dots> \<le> (275 * 8200000) div 4800"
    using assms(2) by (intro div_le_mono2) auto
  also have "\<dots> = 469791" by simp
  finally show ?thesis .
qed


lemma unat_ucast_8_32: "unat (ucast (x::u8) :: u32) = unat x"
  by transfer (simp add: take_bit_nat_eq_self)

lemma round_up_ms_props:
  "1000 dvd round_up_ms x \<and> x \<le> round_up_ms x \<and> round_up_ms x < x + 1000"
proof -
  have e: "(x + 999) div 1000 * 1000 + (x + 999) mod 1000 = x + 999"
    by (rule div_mult_mod_eq)
  have l: "(x + 999) mod 1000 < 1000" by simp
  have "1000 dvd (x + 999) div 1000 * 1000" by (rule dvd_triv_right)
  with e l show ?thesis unfolding round_up_ms_def by linarith
qed

lemma unat_plus_small:
  assumes "unat (x::u32) \<le> 2000000" "unat y \<le> 2000000"
  shows "unat (x + y) = unat x + unat y"
  using assms by (subst unat_add_lem [THEN iffD1]) auto

lemma unat_round_up:
  assumes "unat (x::u32) \<le> 1000000"
  shows "unat ((x + 999) div 1000 * 1000) = round_up_ms (unat x)"
proof -
  have 1: "unat (x + 999) = unat x + 999"
    using assms by (subst unat_plus_small) auto
  have 2: "unat ((x + 999) div 1000) = (unat x + 999) div 1000"
    by (simp add: unat_div 1)
  have "(unat x + 999) div 1000 * 1000 \<le> unat x + 999" by simp
  then have 3: "unat ((x + 999) div 1000) * unat (1000::u32) < 2 ^ LENGTH(32)"
    using assms by (simp add: 2)
  have "unat ((x + 999) div 1000 * 1000) = unat ((x + 999) div 1000) * unat (1000::u32)"
    using 3 by (simp only: unat_mult_lem [THEN iffD1])
  then show ?thesis by (simp add: 2 round_up_ms_def)
qed

text \<open>
  Claim C2, as the code has it. For every \<open>bind_data\<close> whose \<open>modem_params\<close> is a valid
  index of the table (and a telemetry packet size of at most 255 bytes),
  \<^verbatim>\<open>getInterval\<close> returns the nominal interval \<open>bytes_to_usec(pkt) + 2000\<close> (plus
  \<open>bytes_to_usec(TELEMETRY_PACKETSIZE) + 1000\<close> when a telemetry flag is set) rounded up to
  the next multiple of 1000, raised to 20000 when \<^verbatim>\<open>LIMIT_RATE_TO_50HZ\<close> is defined and
  the rounded value is below 20000; no 32-bit operation wraps. The result is a multiple
  of 1000 and at least \<open>bytes_to_usec(pkt) + 2000\<close>.
\<close>

theorem getInterval_rounds_up:
  assumes idx: "unat (modem_params bd) < 5"
    and tps: "unat (TELEMETRY_PACKETSIZE cfg) \<le> 255"
  shows "\<exists>r iv. modem_params_at (modem_params bd) = Some r \<and> getInterval cfg bd = Some iv \<and>
           unat iv = (let m = round_up_ms (interval_nominal cfg bd (unat (bps r)))
                      in if LIMIT_RATE_TO_50HZ cfg \<and> m < 20000 then 20000 else m) \<and>
           1000 dvd unat iv \<and>
           bytes_to_usec (unat (getPacketSize bd)) (unat (bps r))
             (flags bd AND DIVERSITY_ENABLED cfg \<noteq> 0) + 2000 \<le> unat iv"
proof -
  from idx obtain r where r: "modem_params_at (modem_params bd) = Some r"
    using modem_params_at_Some_iff by blast
  note b = modem_params_at_bps [OF r]
  then have b0: "bps r \<noteq> 0" by auto
  define dv where "dv = (flags bd AND DIVERSITY_ENABLED cfg \<noteq> 0)"
  define A where "A = BYTES_AT_BAUD_TO_USEC (ucast (getPacketSize bd)) (bps r) dv"
  define T where "T = BYTES_AT_BAUD_TO_USEC (TELEMETRY_PACKETSIZE cfg) (bps r) dv"
  define ret where "ret = (if flags bd AND TELEMETRY_MASK cfg \<noteq> 0 then A + 2000 + (T + 1000) else A + 2000)"
  define n where "n = interval_nominal cfg bd (unat (bps r))"
  have pk: "unat (ucast (getPacketSize bd) :: u32) = unat (getPacketSize bd)"
    by (rule unat_ucast_8_32)
  have uA: "unat A = bytes_to_usec (unat (getPacketSize bd)) (unat (bps r)) dv"
    unfolding A_def using getPacketSize_le [of bd] by (subst unat_BYTES) (auto simp: pk)
  have uT: "unat T = bytes_to_usec (unat (TELEMETRY_PACKETSIZE cfg)) (unat (bps r)) dv"
    unfolding T_def using tps by (rule unat_BYTES)
  have lA: "unat A \<le> 469791"
    unfolding uA using getPacketSize_le [of bd] b by (intro bytes_to_usec_le) auto
  have lT: "unat T \<le> 469791"
    unfolding uT using tps b by (intro bytes_to_usec_le) auto
  have uA2: "unat (A + 2000) = unat A + 2000"
    using lA by (subst unat_plus_small) auto
  have uT1: "unat (T + 1000) = unat T + 1000"
    using lT by (subst unat_plus_small) auto
  have uAT: "unat (A + 2000 + (T + 1000)) = unat A + 2000 + (unat T + 1000)"
    using lA lT by (subst unat_plus_small) (auto simp: uA2 uT1)
  have uret: "unat ret = n"
  proof (cases "flags bd AND TELEMETRY_MASK cfg \<noteq> 0")
    case True
    then have "ret = A + 2000 + (T + 1000)"
      by (simp add: ret_def)
    then have "unat ret = unat A + 2000 + (unat T + 1000)"
      by (simp only: uAT)
    moreover from True have "n = unat A + 2000 + (unat T + 1000)"
      unfolding n_def interval_nominal_def Let_def dv_def [symmetric] uA uT
      by simp
    ultimately show ?thesis by simp
  next
    case False
    then have "ret = A + 2000"
      by (simp add: ret_def)
    then have "unat ret = unat A + 2000"
      by (simp only: uA2)
    moreover from False have "n = unat A + 2000"
      unfolding n_def interval_nominal_def Let_def dv_def [symmetric] uA uT
      by simp
    ultimately show ?thesis by simp
  qed
  have lret: "unat ret \<le> 1000000"
  proof (cases "flags bd AND TELEMETRY_MASK cfg \<noteq> 0")
    case True
    then have "ret = A + 2000 + (T + 1000)"
      by (simp add: ret_def)
    then have "unat ret = unat A + 2000 + (unat T + 1000)"
      by (simp only: uAT)
    then show ?thesis using lA lT by linarith
  next
    case False
    then have "ret = A + 2000"
      by (simp add: ret_def)
    then have "unat ret = unat A + 2000"
      by (simp only: uA2)
    then show ?thesis using lA by linarith
  qed
  have An: "unat A + 2000 \<le> n"
    unfolding n_def interval_nominal_def Let_def dv_def [symmetric] uA by simp
  define m where "m = (ret + 999) div 1000 * 1000"
  have um: "unat m = round_up_ms n"
    unfolding m_def using lret by (simp add: unat_round_up uret)
  have m20: "m < 20000 \<longleftrightarrow> round_up_ms n < 20000"
    by (simp add: word_less_nat_alt um)
  define iv where "iv = (if LIMIT_RATE_TO_50HZ cfg \<and> m < 20000 then 20000 else m)"
  have gi: "getInterval cfg bd = Some iv"
    by (simp only: getInterval_def r Option.bind.simps b0 if_False Let_def
          iv_def m_def ret_def A_def T_def dv_def)
  have uiv: "unat iv = (if LIMIT_RATE_TO_50HZ cfg \<and> round_up_ms n < 20000 then 20000 else round_up_ms n)"
    unfolding iv_def by (simp add: m20 um)
  have dvd: "1000 dvd unat iv"
    unfolding uiv using round_up_ms_props [of n] by auto
  have ge: "unat A + 2000 \<le> unat iv"
    unfolding uiv using round_up_ms_props [of n] An by auto
  have ge': "bytes_to_usec (unat (getPacketSize bd)) (unat (bps r))
             (flags bd AND DIVERSITY_ENABLED cfg \<noteq> 0) + 2000 \<le> unat iv"
    using ge by (simp only: uA dv_def)
  have uiv': "unat iv = (let m = round_up_ms (interval_nominal cfg bd (unat (bps r)))
                      in if LIMIT_RATE_TO_50HZ cfg \<and> m < 20000 then 20000 else m)"
    by (simp only: uiv Let_def n_def)
  from r gi uiv' dvd ge' show ?thesis by blast
qed


text \<open>
  The theorem at 19200 bps, an 11-byte packet and telemetry: 13104 + 11250 microseconds,
  rounded up to 25000.
\<close>

theorem getInterval_rounds_up_witness:
  "unat (modem_params (example_bind_data 0x0a 2)) < 5 \<and>
   unat (TELEMETRY_PACKETSIZE example_config) \<le> 255 \<and>
   getInterval example_config (example_bind_data 0x0a 2) = Some 25000"
proof -
  have h1: "unat (modem_params (example_bind_data 0x0a 2)) < 5"
    by (simp add: example_bind_data_def)
  have h2: "unat (TELEMETRY_PACKETSIZE example_config) \<le> 255"
    by (simp add: example_config_def)
  have r: "modem_params_at (modem_params (example_bind_data 0x0a 2)) = Some (modem_params_tab ! 2)"
    by (simp add: example_bind_data_def modem_params_at_def array_get_def modem_params_tab_def)
  from getInterval_rounds_up [OF h1 h2]
  obtain iv where iv: "getInterval example_config (example_bind_data 0x0a 2) = Some iv"
    and u: "unat iv = (let m = round_up_ms (interval_nominal example_config (example_bind_data 0x0a 2) (unat (bps (modem_params_tab ! 2))))
                      in if LIMIT_RATE_TO_50HZ example_config \<and> m < 20000 then 20000 else m)"
    unfolding r by auto
  have "unat iv = 25000"
    unfolding u
    by (simp add: round_up_ms_def interval_nominal_def bytes_to_usec_def example_config_def
          example_bind_data_def getPacketSize_def pktsizes_def modem_params_tab_def mk_modem_regs_def)
  then have "iv = 25000" by (simp add: word_unat_eq_iff)
  with iv h1 h2 show ?thesis by simp
qed

text \<open>
  Claim C2 as stated leaves the 50 Hz limit out. In a build with
  \<^verbatim>\<open>LIMIT_RATE_TO_50HZ\<close>, a 7-byte packet at 125000 bps has the nominal interval 3443,
  which rounds up to 4000, and \<^verbatim>\<open>getInterval\<close> returns 20000.
\<close>

theorem getInterval_claim_counterexample:
  "getInterval example_config_50hz (example_bind_data 0x01 4) = Some 20000 \<and>
   round_up_ms (interval_nominal example_config_50hz (example_bind_data 0x01 4) 125000) = 4000"
  by (simp add: getInterval_def modem_params_at_def array_get_def modem_params_tab_def
        mk_modem_regs_def BYTES_AT_BAUD_TO_USEC_def getPacketSize_def pktsizes_def
        round_up_ms_def interval_nominal_def bytes_to_usec_def example_config_def
        example_config_50hz_def example_bind_data_def)

subsection \<open>The interrupt entry point\<close>

text \<open>
  Claim C7, as the code has it. \<^verbatim>\<open>PIOS_OpenLRS_EXT_Int\<close> transfers nothing over SPI. It
  increments the interrupt counter \<^verbatim>\<open>irqs\<close> on every call and, when the device is valid,
  changes \<^verbatim>\<open>rf_mode\<close> from \<open>Transmit\<close> to \<open>Transmitted\<close> and from \<open>Receive\<close> to
  \<open>Received\<close>; every other mode and every other field and variable is left as it was.
\<close>

theorem EXT_Int_effect:
  "PIOS_OpenLRS_EXT_Int cfg s =
     s\<lparr>rf_mode := (if pios_openlrs_validate cfg s
                    then (case rf_mode s of Transmit \<Rightarrow> Transmitted | Receive \<Rightarrow> Received
                          | Available \<Rightarrow> Available | Transmitted \<Rightarrow> Transmitted
                          | Received \<Rightarrow> Received)
                    else rf_mode s),
       irqs := irqs s + 1\<rparr> \<and>
   spi_log (PIOS_OpenLRS_EXT_Int cfg s) = spi_log s"
  by (cases "rf_mode s") (simp_all add: PIOS_OpenLRS_EXT_Int_def pios_openlrs_validate_def Let_def)

text \<open>The theorem for a valid device in mode \<open>Receive\<close>.\<close>

theorem EXT_Int_effect_witness:
  "PIOS_OpenLRS_EXT_Int example_config ((example_state (example_bind_data 2 2))\<lparr>rf_mode := Receive\<rparr>) =
     (example_state (example_bind_data 2 2))\<lparr>rf_mode := Received, irqs := 1\<rparr>"
  using EXT_Int_effect [of example_config "(example_state (example_bind_data 2 2))\<lparr>rf_mode := Receive\<rparr>"]
  by (simp add: pios_openlrs_validate_def example_state_def example_config_def)

text \<open>
  Claim C7 as stated has the handler change \<^verbatim>\<open>rf_mode\<close> and nothing else, and leave the
  state unchanged in every mode but \<open>Transmit\<close> and \<open>Receive\<close>. In mode \<open>Available\<close> the
  state after the handler differs from the state before it: \<^verbatim>\<open>irqs\<close> has been
  incremented.
\<close>

theorem EXT_Int_claim_counterexample:
  "rf_mode (example_state (example_bind_data 2 2)) = Available \<and>
   PIOS_OpenLRS_EXT_Int example_config (example_state (example_bind_data 2 2))
     \<noteq> example_state (example_bind_data 2 2)"
proof -
  have "irqs (PIOS_OpenLRS_EXT_Int example_config (example_state (example_bind_data 2 2))) = 1"
    by (simp add: PIOS_OpenLRS_EXT_Int_def Let_def example_state_def)
  moreover have "irqs (example_state (example_bind_data 2 2)) = 0"
    by (simp add: example_state_def)
  ultimately have "PIOS_OpenLRS_EXT_Int example_config (example_state (example_bind_data 2 2))
     \<noteq> example_state (example_bind_data 2 2)" by auto
  then show ?thesis by (simp add: example_state_def)
qed

subsection \<open>Carrier frequency\<close>

lemma unat_ucast_32_16: "unat (x::u32) < 65536 \<Longrightarrow> unat (ucast x :: u16) = unat x"
  by (simp add: unsigned_ucast_eq take_bit_nat_eq_self)

lemma four_div_two: "4 div Suc (Suc 0) = (2::nat)"
  by (simp add: numeral_2_eq_2 [symmetric])

lemma carrier_band:
  fixes f :: u32 and step :: nat
  assumes step: "step = 10000000 \<or> step = 20000000"
    and lo: "24 * step \<le> unat f" and hi: "unat f < 108 * step"
  defines "sw \<equiv> (of_nat step :: u32)"
  defines "fb \<equiv> (ucast (f div sw - 24) :: u16)"
  shows "unat fb = unat f div step - 24"
    and "(uint fb + 24) * int step \<le> 2147483647"
    and "unat (f - word_of_int ((uint fb + 24) * int step)) = unat f - (unat f div step) * step"
proof -
  define q where "q = unat f div step"
  have sp: "0 < step" using step by auto
  have usw: "unat sw = step" unfolding sw_def using step by auto
  have q24: "24 \<le> q" unfolding q_def using lo sp by (simp add: less_eq_div_iff_mult_less_eq)
  have q107: "q < 108" unfolding q_def using hi sp by (simp add: div_less_iff_less_mult)
  have w1: "unat (f div sw) = q" by (simp add: unat_div usw q_def)
  have "(24::u32) \<le> f div sw" using q24 by (simp add: word_le_nat_alt w1)
  then have w2: "unat (f div sw - 24) = q - 24" by (simp add: unat_sub w1)
  show fbv: "unat fb = unat f div step - 24"
    unfolding fb_def using q107 by (simp add: unat_ucast_32_16 w2 q_def)
  have ufb: "uint fb + 24 = int q"
    using q24 fbv by (simp add: uint_nat q_def)
  have le: "q * step \<le> unat f" unfolding q_def by simp
  have "q * step \<le> 107 * 20000000" using q107 step by (auto intro: mult_le_mono)
  then have "int (q * step) \<le> 2147483647" by linarith
  then show "(uint fb + 24) * int step \<le> 2147483647"
    unfolding ufb by (simp only: of_nat_mult)
  have "word_of_int ((uint fb + 24) * int step) = (word_of_nat (q * step) :: u32)"
    unfolding ufb by simp
  moreover have uq: "unat (word_of_nat (q * step) :: u32) = q * step"
    using le by (rule le_unat_uoi)
  moreover have "(word_of_nat (q * step) :: u32) \<le> f"
    using le by (simp only: word_le_nat_alt uq)
  ultimately show "unat (f - word_of_int ((uint fb + 24) * int step)) = unat f - (unat f div step) * step"
    by (simp add: unat_sub uq q_def)
qed


lemma carrier_exact_arithmetic:
  assumes lo: "240000000 \<le> unat f" and hi: "unat f < 2160000000"
  shows "\<exists>hbsel fb fc. carrier_hbsel_fb_fc f = Some (hbsel, fb, fc) \<and>
           (unat hbsel, unat fb, unat fc) = carrier_exact (unat f)"
proof (cases "f < 480000000")
  case True
  then have n: "unat f < 480000000" by (simp add: word_less_nat_alt)
  note b = carrier_band [where f = f and step = 10000000, simplified]
  have b1: "unat (ucast (f div 10000000 - 24) :: u16) = unat f div 10000000 - 24"
    and b2: "(uint (ucast (f div 10000000 - 24) :: u16) + 24) * 10000000 \<le> 2147483647"
    and b3: "unat (f - word_of_int ((uint (ucast (f div 10000000 - 24) :: u16) + 24) * 10000000))
               = unat f - unat f div 10000000 * 10000000"
    using b lo n by auto
  define r where "r = f - word_of_int ((uint (ucast (f div 10000000 - 24) :: u16) + 24) * 10000000)"
  have ur: "unat r = unat f mod 10000000"
    unfolding r_def b3 by (simp add: minus_div_mult_eq_mod)
  then have rl: "unat r < 10000000" by simp
  have "unat r * unat (4::u32) < 2 ^ LENGTH(32)" using rl by simp
  then have u4: "unat (r * 4) = unat r * 4"
    by (simp only: unat_mult_lem [THEN iffD1]) simp
  have u5: "unat (r * 4 div 625) = unat r * 4 div 625" by (simp add: unat_div u4)
  have "unat r * 4 div 625 < 65536" using rl by simp
  then have u6: "unat (ucast (r * 4 div 625) :: u16) = unat r * 4 div 625"
    by (simp add: unat_ucast_32_16 u5)
  have q24: "24 \<le> unat f div 10000000" using lo by simp
  have c: "carrier_hbsel_fb_fc f = Some (0, ucast (f div 10000000 - 24), ucast (r * 4 div 625))"
    using True b2 by (simp add: carrier_hbsel_fb_fc_def Let_def r_def)
  have e: "carrier_exact (unat f) = (0, unat f div 10000000 - 24, unat r * 4 div 625)"
    using n q24 by (simp add: carrier_exact_def Let_def ur minus_div_mult_eq_mod)
  show ?thesis using c e b1 u6 by simp
next
  case False
  then have n: "480000000 \<le> unat f" by (simp add: word_less_nat_alt)
  note b = carrier_band [where f = f and step = 20000000, simplified]
  have b1: "unat (ucast (f div 20000000 - 24) :: u16) = unat f div 20000000 - 24"
    and b2: "(uint (ucast (f div 20000000 - 24) :: u16) + 24) * 20000000 \<le> 2147483647"
    and b3: "unat (f - word_of_int ((uint (ucast (f div 20000000 - 24) :: u16) + 24) * 20000000))
               = unat f - unat f div 20000000 * 20000000"
    using b hi n by auto
  define r where "r = f - word_of_int ((uint (ucast (f div 20000000 - 24) :: u16) + 24) * 20000000)"
  have ur: "unat r = unat f mod 20000000"
    unfolding r_def b3 by (simp add: minus_div_mult_eq_mod)
  then have rl: "unat r < 20000000" by simp
  have "unat r * unat (2::u32) < 2 ^ LENGTH(32)" using rl by simp
  then have u4: "unat (r * 2) = unat r * 2"
    by (simp only: unat_mult_lem [THEN iffD1]) simp
  have u5: "unat (r * 2 div 625) = unat r * 2 div 625" by (simp add: unat_div u4)
  have "unat r * 2 div 625 < 65536" using rl by simp
  then have u6: "unat (ucast (r * 2 div 625) :: u16) = unat r * 2 div 625"
    by (simp add: unat_ucast_32_16 u5)
  have q24: "24 \<le> unat f div 20000000" using n by simp
  have c: "carrier_hbsel_fb_fc f = Some (1, ucast (f div 20000000 - 24), ucast (r * 2 div 625))"
    using False b2 by (simp add: carrier_hbsel_fb_fc_def Let_def r_def)
  note d = four_div_two
  have e: "carrier_exact (unat f) = (1, unat f div 20000000 - 24, unat r * 2 div 625)"
    using n q24 by (simp add: carrier_exact_def Let_def ur minus_div_mult_eq_mod d)
  show ?thesis using c e b1 u6 by simp
qed


lemma low_byte: "(ucast ((fc::u16) AND 0xff) :: u8) = of_nat (unat fc mod 256)"
proof -
  have m: "(0xff::u16) = mask 8" by (simp add: mask_eq_exp_minus_1)
  have t: "unat fc mod 256 = take_bit 8 (unat fc)" by (simp add: take_bit_eq_mod)
  show ?thesis unfolding m t
    by (rule bit_eqI) (auto simp: bit_simps)
qed

lemma high_byte: "(ucast (drop_bit 8 (fc::u16)) :: u8) = of_nat (unat fc div 256)"
proof -
  have t: "unat fc div 256 = drop_bit 8 (unat fc)" by (simp add: drop_bit_eq_div)
  show ?thesis unfolding t
    by (rule bit_eqI) (auto simp: bit_simps dest: bit_imp_le_length)
qed

lemma band_bits: "(ucast ((fb::u16) AND ucast RFM22_fb_mask) :: u8) = of_nat (unat fb mod 32)"
proof -
  have m: "(ucast RFM22_fb_mask :: u16) = mask 5" by (simp add: RFM22_fb_mask_def mask_eq_exp_minus_1)
  have t: "unat fb mod 32 = take_bit 5 (unat fb)" by (simp add: take_bit_eq_mod)
  show ?thesis unfolding m t
    by (rule bit_eqI) (auto simp: bit_simps)
qed

lemma unat_ucast_32_16_mod: "unat (ucast (x::u32) :: u16) = unat x mod 65536"
  by (simp add: unsigned_ucast_eq take_bit_eq_mod)

lemma carrier_below_band:
  assumes "unat f < 240000000"
  shows "carrier_hbsel_fb_fc f = None"
proof -
  define q where "q = unat f div 10000000"
  from assms have q: "q < 24" unfolding q_def by simp
  from assms have lt: "f < 480000000" by (simp add: word_less_nat_alt)
  have w: "unat (f div 10000000) = q" by (simp add: unat_div q_def)
  have "unat (f div 10000000 - 24) = 4294967296 + q - 24"
    using q by (simp add: unat_sub_if_size w word_size)
  also have "\<dots> = 65535 * 65536 + (65512 + q)" by simp
  finally have "unat (ucast (f div 10000000 - 24) :: u16) = (65535 * 65536 + (65512 + q)) mod 65536"
    by (simp only: unat_ucast_32_16_mod)
  also have "\<dots> = (65512 + q) mod 65536" by (rule mod_mult_self3)
  also have "\<dots> = 65512 + q" using q by simp
  finally have "uint (ucast (f div 10000000 - 24) :: u16) = 65512 + int q"
    by (simp add: uint_nat)
  then have "2147483647 < (uint (ucast (f div 10000000 - 24) :: u16) + 24) * 10000000"
    by simp
  with lt show ?thesis by (simp add: carrier_hbsel_fb_fc_def Let_def)
qed

lemma carrier_above_band:
  assumes "2160000000 \<le> unat f"
  shows "carrier_hbsel_fb_fc f = None"
proof -
  define q where "q = unat f div 20000000"
  from assms have q: "108 \<le> q" unfolding q_def by simp
  have "unat f < 4294967296" using unsigned_less [of f] by simp
  then have q2: "q < 215" unfolding q_def by simp
  from assms have lt: "\<not> f < 480000000" by (simp add: word_less_nat_alt)
  have w: "unat (f div 20000000) = q" by (simp add: unat_div q_def)
  have "unat (f div 20000000 - 24) = q - 24"
    using q by (simp add: unat_sub_if_size w word_size)
  then have "unat (ucast (f div 20000000 - 24) :: u16) = q - 24"
    using q2 by (simp add: unat_ucast_32_16_mod)
  then have "uint (ucast (f div 20000000 - 24) :: u16) + 24 = int q"
    using q by (simp add: uint_nat)
  moreover have "2147483647 < int q * 20000000" using q by simp
  ultimately have "2147483647 < (uint (ucast (f div 20000000 - 24) :: u16) + 24) * 20000000"
    by (simp only:)
  with lt show ?thesis by (simp add: carrier_hbsel_fb_fc_def Let_def)
qed

lemma carrier_defined_iff:
  "carrier_hbsel_fb_fc f = None \<longleftrightarrow> \<not> (240000000 \<le> unat f \<and> unat f < 2160000000)"
proof (cases "240000000 \<le> unat f \<and> unat f < 2160000000")
  case True
  then obtain h fb fc where "carrier_hbsel_fb_fc f = Some (h, fb, fc)"
    using carrier_exact_arithmetic [of f] by blast
  with True show ?thesis by simp
next
  case False
  then have "carrier_hbsel_fb_fc f = None"
    using carrier_below_band [of f] carrier_above_band [of f] by auto
  with False show ?thesis by simp
qed

lemma carrier_exact_bounds:
  assumes "240000000 \<le> f" "f < 2160000000"
  shows "fst (carrier_exact f) \<le> 1" "fst (snd (carrier_exact f)) \<le> 83"
    "snd (snd (carrier_exact f)) < 64000"
proof -
  show "fst (carrier_exact f) \<le> 1" by (simp add: carrier_exact_def Let_def)
  have "f div 10000000 < 48" if "f < 480000000"
    using that by (simp add: div_less_iff_less_mult)
  moreover have "f div 20000000 < 108"
    using assms(2) by (simp add: div_less_iff_less_mult)
  ultimately show "fst (snd (carrier_exact f)) \<le> 83"
    by (auto simp: carrier_exact_def Let_def)
  show "snd (snd (carrier_exact f)) < 64000"
  proof (cases "f < 480000000")
    case True
    have "f - (f div 10000000 - 24 + 24) * 10000000 = f mod 10000000"
      using assms by (simp add: minus_div_mult_eq_mod)
    moreover have "f mod 10000000 * 4 div 625 < 64000" 
      by (simp add: div_less_iff_less_mult)
    ultimately show ?thesis using True by (simp add: carrier_exact_def Let_def)
  next
    case False
    have "f - (f div 20000000 - 24 + 24) * 20000000 = f mod 20000000"
      using assms False by (simp add: minus_div_mult_eq_mod)
    moreover have "f mod 20000000 * 2 div 625 < 64000" 
      by (simp add: div_less_iff_less_mult)
    ultimately show ?thesis using False by (simp add: carrier_exact_def Let_def four_div_two)
  qed
qed

lemma carrier_writes:
  assumes "240000000 \<le> unat f" "unat f < 2160000000"
    and e: "carrier_exact (unat f) = (h, fb, fc)"
  shows "rfmSetCarrierFrequency f s =
           Some (rfm22_writes [(0x75, of_nat (64 + 32 * h + fb mod 32)),
                               (0x76, of_nat (fc div 256)),
                               (0x77, of_nat (fc mod 256))] s)"
proof -
  from carrier_exact_arithmetic [OF assms(1,2)] e obtain wh wfb wfc where
    c: "carrier_hbsel_fb_fc f = Some (wh, wfb, wfc)"
    and u: "unat wh = h" "unat wfb = fb" "unat wfc = fc"
    by auto
  from e have "h = (if unat f < 480000000 then 0 else 1)" by (auto simp: carrier_exact_def Let_def)
  then have h: "h = 0 \<or> h = 1" by auto
  have b: "(0x40::u8) + (if wh \<noteq> 0 then 0x20 else 0) + of_nat (fb mod 32) = of_nat (64 + 32 * h + fb mod 32)"
    using h u(1) by (auto simp: unsigned_eq_0_iff)
  show ?thesis
    by (simp only: rfmSetCarrierFrequency_def c Option.bind.simps prod.case band_bits high_byte
          low_byte u RFM22_frequency_band_select_def RFM22_nominal_carrier_frequency1_def
          RFM22_nominal_carrier_frequency0_def RFM22_fbs_sbse_def RFM22_fbs_hbsel_def b)
qed

lemma rfmSetCarrierFrequency_None:
  "rfmSetCarrierFrequency f s = None \<longleftrightarrow> carrier_hbsel_fb_fc f = None"
  by (cases "carrier_hbsel_fb_fc f") (auto simp: rfmSetCarrierFrequency_def)

lemma init_rfm_carrier_None:
  assumes "carrier_hbsel_fb_fc (rf_frequency (bind_data s)) = None"
  shows "init_rfm cfg hw False s = None"
proof (cases "init_rfm cfg hw False s")
  case None
  then show ?thesis .
next
  case (Some s')
  then obtain t where t: "rfmSetCarrierFrequency (rf_frequency (bind_data t)) t = Some s'"
    and n: "no_hw t = no_hw s"
    by (auto simp: init_rfm_def Let_def bind_eq_Some_conv setModemRegs_def no_hw_writes
        no_hw_read_it_status no_hw_init_rfm_headers split: gpio_direction.splits if_splits)
  from no_hw_fields(3) [OF n] have "bind_data t = bind_data s" .
  with t assms show ?thesis by (simp add: rfmSetCarrierFrequency_def)
qed

text \<open>
  Claim C9, as the code has it. For 433 920 000 Hz \<^verbatim>\<open>rfmSetCarrierFrequency\<close> computes
  \<open>hbsel = 0\<close>, \<open>fb = 19\<close> and \<open>fc = 25088\<close>, the values of the specification's formulas,
  and writes \<open>0x53\<close> to register \<open>0x75\<close>, \<open>0x62\<close> to \<open>0x76\<close> and \<open>0x00\<close> to \<open>0x77\<close>, in
  this order and nothing else. For every frequency \<open>f\<close> from 240 MHz up to (not including)
  2160 MHz the three variables are the values of the formulas in exact arithmetic
  (\<open>hbsel \<le> 1\<close>, \<open>fb \<le> 83\<close>, \<open>fc < 64000\<close>), and the function writes
  \<open>0x40 + 0x20\<cdot>hbsel + (fb mod 32)\<close> to \<open>0x75\<close>, \<open>fc div 256\<close> to \<open>0x76\<close> and \<open>fc mod 256\<close> to
  \<open>0x77\<close>. For every other frequency the function has no defined result: below 240 MHz
  \<open>f / step - 24\<close> wraps and the 16-bit \<open>fb\<close> is at least 65512, from 2160 MHz on \<open>fb + 24\<close>
  is at least 108, and in both cases the signed product \<open>(fb + 24) * step\<close> exceeds
  \<^verbatim>\<open>INT_MAX\<close>. Nothing tests the frequency: \<^verbatim>\<open>init_rfm\<close> passes \<^verbatim>\<open>bind_data.rf_frequency\<close>
  on as it is.
\<close>

theorem rfmSetCarrierFrequency_effect:
  "rfmSetCarrierFrequency 433920000 s =
     Some (rfm22_writes [(0x75, 0x53), (0x76, 0x62), (0x77, 0x00)] s) \<and>
   carrier_hbsel_fb_fc 433920000 = Some (0, 19, 25088) \<and>
   carrier_exact 433920000 = (0, 19, 25088) \<and>
   (240000000 \<le> unat f \<and> unat f < 2160000000 \<longrightarrow>
      (case carrier_exact (unat f) of
         (hbsel, fb, fc) \<Rightarrow>
           hbsel \<le> 1 \<and> fb \<le> 83 \<and> fc < 64000 \<and>
           carrier_hbsel_fb_fc f = Some (of_nat hbsel, of_nat fb, of_nat fc) \<and>
           rfmSetCarrierFrequency f s =
             Some (rfm22_writes [(0x75, of_nat (64 + 32 * hbsel + fb mod 32)),
                                 (0x76, of_nat (fc div 256)),
                                 (0x77, of_nat (fc mod 256))] s))) \<and>
   (\<not> (240000000 \<le> unat f \<and> unat f < 2160000000) \<longrightarrow>
      carrier_hbsel_fb_fc f = None \<and> rfmSetCarrierFrequency f s = None \<and>
      (rf_frequency (bind_data s) = f \<longrightarrow> init_rfm cfg hw False s = None))"
proof (intro conjI impI)
  show c: "carrier_hbsel_fb_fc 433920000 = Some (0, 19, 25088)"
    by (simp add: carrier_hbsel_fb_fc_def Let_def)
  show "rfmSetCarrierFrequency 433920000 s =
          Some (rfm22_writes [(0x75, 0x53), (0x76, 0x62), (0x77, 0x00)] s)"
    by (simp add: rfmSetCarrierFrequency_def c rfm22_writes_def rfm22_write_def
          RFM22_frequency_band_select_def RFM22_nominal_carrier_frequency1_def
          RFM22_nominal_carrier_frequency0_def RFM22_fbs_sbse_def RFM22_fbs_hbsel_def
          RFM22_fb_mask_def)
  show "carrier_exact 433920000 = (0, 19, 25088)"
    by (simp add: carrier_exact_def Let_def)
next
  assume r: "240000000 \<le> unat f \<and> unat f < 2160000000"
  obtain h fb fc where e: "carrier_exact (unat f) = (h, fb, fc)"
    by (cases "carrier_exact (unat f)")
  from r have lo: "240000000 \<le> unat f" and hi: "unat f < 2160000000" by simp_all
  from carrier_exact_arithmetic [OF lo hi] e obtain wh wfb wfc where
    c: "carrier_hbsel_fb_fc f = Some (wh, wfb, wfc)"
    and u: "unat wh = h" "unat wfb = fb" "unat wfc = fc"
    by auto
  from u have "wh = of_nat h" "wfb = of_nat fb" "wfc = of_nat fc" by auto
  with c have 1: "carrier_hbsel_fb_fc f = Some (of_nat h, of_nat fb, of_nat fc)" by simp
  from carrier_exact_bounds [OF lo hi] e have 2: "h \<le> 1" "fb \<le> 83" "fc < 64000" by simp_all
  note 3 = carrier_writes [OF lo hi e, of s]
  from 1 2 3 show "case carrier_exact (unat f) of
         (hbsel, fb, fc) \<Rightarrow>
           hbsel \<le> 1 \<and> fb \<le> 83 \<and> fc < 64000 \<and>
           carrier_hbsel_fb_fc f = Some (of_nat hbsel, of_nat fb, of_nat fc) \<and>
           rfmSetCarrierFrequency f s =
             Some (rfm22_writes [(0x75, of_nat (64 + 32 * hbsel + fb mod 32)),
                                 (0x76, of_nat (fc div 256)),
                                 (0x77, of_nat (fc mod 256))] s)"
    by (simp only: e prod.case simp_thms)
next
  assume "\<not> (240000000 \<le> unat f \<and> unat f < 2160000000)"
  then show n: "carrier_hbsel_fb_fc f = None" by (simp add: carrier_defined_iff)
  then show "rfmSetCarrierFrequency f s = None" by (simp only: rfmSetCarrierFrequency_None)
  assume "rf_frequency (bind_data s) = f"
  with n show "init_rfm cfg hw False s = None" by (intro init_rfm_carrier_None) simp
qed

text \<open>
  The theorem at 915 MHz, in the high band (\<open>hbsel = 1\<close>, \<open>fb = 21\<close>, \<open>fc = 48000\<close>, bytes
  \<open>0x75\<close>, \<open>0xBB\<close>, \<open>0x80\<close>), and at 2400 MHz, above the range.
\<close>

theorem rfmSetCarrierFrequency_effect_witness:
  "240000000 \<le> unat (915000000 :: u32) \<and> unat (915000000 :: u32) < 2160000000 \<and>
   carrier_exact 915000000 = (1, 21, 48000) \<and>
   carrier_hbsel_fb_fc 915000000 = Some (1, 21, 48000) \<and>
   rfmSetCarrierFrequency 915000000 (example_state (example_bind_data 2 2)) =
     Some (rfm22_writes [(0x75, 0x75), (0x76, 0xBB), (0x77, 0x80)]
            (example_state (example_bind_data 2 2))) \<and>
   \<not> unat (2400000000 :: u32) < 2160000000 \<and>
   rfmSetCarrierFrequency 2400000000 (example_state (example_bind_data 2 2)) = None"
  using rfmSetCarrierFrequency_effect [of "example_state (example_bind_data 2 2)" 915000000]
    rfmSetCarrierFrequency_effect [of "example_state (example_bind_data 2 2)" 2400000000]
  by (simp add: carrier_exact_def Let_def four_div_two)

text \<open>
  The claim's general formulas at 100 MHz: \<open>f / 10\<^sup>7 - 24\<close> is \<open>10 - 24\<close>, which wraps in
  \<^verbatim>\<open>uint32_t\<close> and leaves \<open>fb = 65522\<close> in the 16-bit variable, not a band number; the
  product \<open>(fb + 24) * 10\<^sup>7\<close> is then outside \<^verbatim>\<open>int\<close>, and no \<open>fc\<close> and no register
  value is defined.
\<close>

theorem rfmSetCarrierFrequency_claim_counterexample:
  "rfmSetCarrierFrequency 100000000 (example_state (example_bind_data 2 2)) = None \<and>
   carrier_hbsel_fb_fc 100000000 = None \<and>
   (ucast ((100000000 :: u32) div 10000000 - 24) :: u16) = 65522 \<and>
   2147483647 < (uint (65522 :: u16) + 24) * 10000000"
  by (simp add: rfmSetCarrierFrequency_def carrier_hbsel_fb_fc_def Let_def)

section \<open>The receive loop\<close>

subsection \<open>A lost packet\<close>

text \<open>
  Claim C1. Take a pass of \<^verbatim>\<open>pios_openlrs_rx_loop\<close> and the state \<open>s\<close> it has reached
  after the lock-up check, the drain and the RSSI sample, with the clock values \<open>timeUs\<close>
  and \<open>timeMs\<close> it has read. If in \<open>s\<close> the link is acquired, fewer packets than
  \<open>hopcount\<close> are lost and \<open>timeUs - lastPacketTimeUs\<close> exceeds the interval plus 1000
  (32-bit unsigned arithmetic), the pass records one miss: \<open>linkQuality\<close> is shifted left
  by one with a 0 in the lowest bit, \<open>numberOfLostPackets\<close> grows by one,
  \<open>lastPacketTimeUs\<close> advances by the interval, \<open>willhop\<close> is set; if no packet was lost
  before, \<open>linkLossTimeMs\<close> becomes \<open>timeMs\<close> (and \<open>nextBeaconTimeMs\<close> zero). Nothing
  else changes before the hop, which the pass then performs on that state.
\<close>

theorem rx_loop_records_miss:
  assumes pre: "do { s \<leftarrow> rx_loop_lockup cfg hw s0; s \<leftarrow> rx_loop_drain cfg hw s;
                     rx_loop_rssi cfg hw s } = Some s"
    and acq: "link_acquired s"
    and lost: "numberOfLostPackets s < ucast (hopcount s)"
    and iv: "getInterval cfg (bind_data s) = Some iv"
    and late: "timeUs hw - lastPacketTimeUs s > iv + 1000"
  shows "\<exists>s'. s' = s\<lparr>linkQuality := push_bit 1 (linkQuality s),
                      willhop := True,
                      linkLossTimeMs :=
                        (if numberOfLostPackets s = 0 then timeMs hw else linkLossTimeMs s),
                      nextBeaconTimeMs :=
                        (if numberOfLostPackets s = 0 then 0 else nextBeaconTimeMs s),
                      numberOfLostPackets := numberOfLostPackets s + 1,
                      lastPacketTimeUs := lastPacketTimeUs s + iv\<rparr> \<and>
           rx_loop_link cfg hw s = Some s' \<and>
           \<not> bit (linkQuality s') 0 \<and>
           pios_openlrs_rx_loop cfg hw s0 = rx_loop_hop cfg s'"
proof -
  define s' where "s' = s\<lparr>linkQuality := push_bit 1 (linkQuality s),
                      willhop := True,
                      linkLossTimeMs :=
                        (if numberOfLostPackets s = 0 then timeMs hw else linkLossTimeMs s),
                      nextBeaconTimeMs :=
                        (if numberOfLostPackets s = 0 then 0 else nextBeaconTimeMs s),
                      numberOfLostPackets := numberOfLostPackets s + 1,
                      lastPacketTimeUs := lastPacketTimeUs s + iv\<rparr>"
  have link: "rx_loop_link cfg hw s = Some s'"
    using acq lost iv late by (simp add: rx_loop_link_def Let_def s'_def)
  have b: "\<not> bit (linkQuality s') 0"
    by (simp add: s'_def bit_0)
  from pre obtain s1 s2 where 1: "rx_loop_lockup cfg hw s0 = Some s1"
    and 2: "rx_loop_drain cfg hw s1 = Some s2" and 3: "rx_loop_rssi cfg hw s2 = Some s"
    by (auto simp: bind_eq_Some_conv)
  have "pios_openlrs_rx_loop cfg hw s0 = rx_loop_hop cfg s'"
    by (simp add: pios_openlrs_rx_loop_def 1 2 3 link)
  with link b show ?thesis unfolding s'_def by blast
qed

text \<open>
  The theorem on the specification's single-loss scenario: 11-byte packets at 19200 bps
  (interval 14000), the last packet at time 0 and the clock at 15001 microseconds
  (15 ms). One packet is lost, the synthetic clock stands at 14000, the link quality
  \<open>0x7FFF\<close> has become \<open>0xFFFE\<close>, and the hop has moved to channel 1.
\<close>

lemma getInterval_example: "getInterval example_config (example_bind_data 2 2) = Some 14000"
    by (simp add: getInterval_def modem_params_at_def array_get_def modem_params_tab_def
        mk_modem_regs_def BYTES_AT_BAUD_TO_USEC_def getPacketSize_def pktsizes_def
        example_config_def example_bind_data_def)

theorem rx_loop_records_miss_witness:
  "map_option (\<lambda>s. (numberOfLostPackets s, lastPacketTimeUs s, linkLossTimeMs s, linkQuality s,
                     rf_channel s, willhop s))
     (pios_openlrs_rx_loop example_config (example_inputs [] 15001 15)
        ((example_state (example_bind_data 2 2))
           \<lparr>rf_mode := Receive, link_acquired := True, hopcount := 6, linkQuality := 0x7FFF\<rparr>))
   = Some (1, 14000, 15, 0xFFFE, 1, False)"
proof -
  let ?hw = "example_inputs [] 15001 15"
  let ?init = "(example_state (example_bind_data 2 2))
           \<lparr>rf_mode := Receive, link_acquired := True, hopcount := 6, linkQuality := 0x7FFF\<rparr>"
  let ?pre = "?init\<lparr>spi_log := [[0x0C, 0xFF]]\<rparr>"
  have pre: "do { s \<leftarrow> rx_loop_lockup example_config ?hw ?init; s \<leftarrow> rx_loop_drain example_config ?hw s;
                     rx_loop_rssi example_config ?hw s } = Some ?pre"
    by (simp add: rx_loop_lockup_def rx_loop_drain_def rx_loop_rssi_def rfm22_read_def
          example_inputs_def example_state_def)
  have acq: "link_acquired ?pre" by simp
  have lost: "numberOfLostPackets ?pre < ucast (hopcount ?pre)" by (simp add: example_state_def)
  have iv: "getInterval example_config (bind_data ?pre) = Some 14000"
    by (simp add: example_state_def getInterval_example)
  have late: "timeUs ?hw - lastPacketTimeUs ?pre > 14000 + 1000"
    by (simp add: example_state_def example_inputs_def)
  from rx_loop_records_miss [OF pre acq lost iv late]
  obtain s' where s': "s' = ?pre\<lparr>linkQuality := push_bit 1 (linkQuality ?pre),
                      willhop := True,
                      linkLossTimeMs :=
                        (if numberOfLostPackets ?pre = 0 then timeMs ?hw else linkLossTimeMs ?pre),
                      nextBeaconTimeMs :=
                        (if numberOfLostPackets ?pre = 0 then 0 else nextBeaconTimeMs ?pre),
                      numberOfLostPackets := numberOfLostPackets ?pre + 1,
                      lastPacketTimeUs := lastPacketTimeUs ?pre + 14000\<rparr>"
    and r: "pios_openlrs_rx_loop example_config ?hw ?init = rx_loop_hop example_config s'"
    by blast
  have "map_option (\<lambda>s. (numberOfLostPackets s, lastPacketTimeUs s, linkLossTimeMs s, linkQuality s,
                     rf_channel s, willhop s)) (rx_loop_hop example_config s')
        = Some (1, 14000, 15, 0xFFFE, 1, False)"
    unfolding s'
    by (simp add: rx_loop_hop_def rfmSetChannel_def array_get_def example_state_def
          example_config_def example_bind_data_def example_inputs_def Let_def rfm22_writes_eq)
  then show ?thesis by (simp only: r)
qed

subsection \<open>RSSI sampling\<close>

text \<open>
  Claim C8, as the code has it. A pass samples the RSSI exactly when fewer than two
  packets are lost, no sample has been taken for the current \<open>lastPacketTimeUs\<close>, and
  more than \<open>interval - 1500\<close> microseconds have passed since then (32-bit unsigned
  arithmetic). The sample is read from register \<open>0x26\<close>, added to \<open>RSSI_sum\<close> and counted.
  When the count exceeds 8, that is with the ninth sample, the sum is divided by the
  count, \<open>smoothRSSI\<close> becomes \<open>(3 \<cdot> smoothRSSI + average) / 4\<close>, and sum and count are
  reset to zero. A state that a sample has changed is not sampled again, whatever the
  clock reads, until \<open>lastPacketTimeUs\<close> changes.
\<close>

theorem rx_loop_rssi_effect:
  assumes iv: "getInterval cfg (bind_data s) = Some iv"
  shows "rx_loop_rssi cfg hw s =
           Some (if numberOfLostPackets s < 2 \<and> lastRSSITimeUs s \<noteq> lastPacketTimeUs s \<and>
                    timeUs hw - lastPacketTimeUs s > iv - 1500
                 then (let v = regs hw 0x26;
                           sum = RSSI_sum s + ucast v;
                           cnt = RSSI_count s + 1
                       in s\<lparr>lastRSSITimeUs := lastPacketTimeUs s,
                             lastRSSIvalue := v,
                             spi_log := spi_log s @ [[0x26, 0xFF]],
                             RSSI_sum := (if cnt > 8 then 0 else sum),
                             RSSI_count := (if cnt > 8 then 0 else cnt),
                             smoothRSSI :=
                               (if cnt > 8
                                then of_nat ((unat (smoothRSSI s) * 3 + unat (sum div ucast cnt)) div 4)
                                else smoothRSSI s)\<rparr>)
                 else s) \<and>
         (\<forall>s' hw'. rx_loop_rssi cfg hw s = Some s' \<and> s' \<noteq> s \<longrightarrow>
                    rx_loop_rssi cfg hw' s' = Some s')"
proof
  show eq: "rx_loop_rssi cfg hw s =
           Some (if numberOfLostPackets s < 2 \<and> lastRSSITimeUs s \<noteq> lastPacketTimeUs s \<and>
                    timeUs hw - lastPacketTimeUs s > iv - 1500
                 then (let v = regs hw 0x26;
                           sum = RSSI_sum s + ucast v;
                           cnt = RSSI_count s + 1
                       in s\<lparr>lastRSSITimeUs := lastPacketTimeUs s,
                             lastRSSIvalue := v,
                             spi_log := spi_log s @ [[0x26, 0xFF]],
                             RSSI_sum := (if cnt > 8 then 0 else sum),
                             RSSI_count := (if cnt > 8 then 0 else cnt),
                             smoothRSSI :=
                               (if cnt > 8
                                then of_nat ((unat (smoothRSSI s) * 3 + unat (sum div ucast cnt)) div 4)
                                else smoothRSSI s)\<rparr>)
                 else s)"
    using iv by (simp add: rx_loop_rssi_def rfmGetRSSI_def rfm22_read_def Let_def)
  show "\<forall>s' hw'. rx_loop_rssi cfg hw s = Some s' \<and> s' \<noteq> s \<longrightarrow>
                    rx_loop_rssi cfg hw' s' = Some s'"
  proof (intro allI impI)
    fix s' hw'
    assume a: "rx_loop_rssi cfg hw s = Some s' \<and> s' \<noteq> s"
    then have "lastRSSITimeUs s' = lastPacketTimeUs s'"
      unfolding eq by (auto simp: Let_def split: if_splits)
    then show "rx_loop_rssi cfg hw' s' = Some s'"
      by (simp add: rx_loop_rssi_def)
  qed
qed

text \<open>
  The theorem at the ninth sample: eight samples summing to 800, a ninth of 100, and a
  smoothed value of 40 give the average 100 and the smoothed value 55.
\<close>

theorem rx_loop_rssi_effect_witness:
  "map_option (\<lambda>s. (RSSI_count s, RSSI_sum s, smoothRSSI s, lastRSSIvalue s, lastRSSITimeUs s))
     (rx_loop_rssi example_config ((example_inputs [] 14000 14)\<lparr>regs := (\<lambda>a. 100)\<rparr>)
        ((example_state (example_bind_data 2 2))
           \<lparr>lastPacketTimeUs := 1000, RSSI_sum := 800, RSSI_count := 8, smoothRSSI := 40\<rparr>))
   = Some (0, 0, 55, 100, 1000)"
proof -
  have iv: "getInterval example_config (bind_data ((example_state (example_bind_data 2 2))
           \<lparr>lastPacketTimeUs := 1000, RSSI_sum := 800, RSSI_count := 8, smoothRSSI := 40\<rparr>))
            = Some 14000"
    by (simp add: example_state_def getInterval_example)
  show ?thesis
    using rx_loop_rssi_effect [OF iv, of "(example_inputs [] 14000 14)\<lparr>regs := (\<lambda>a. 100)\<rparr>"]
    by (simp add: example_state_def example_inputs_def Let_def)
qed

text \<open>
  Claim C8 as stated averages after 8 samples. With seven samples summing to 700, the
  eighth sample of 100 (taken 13000 microseconds after the last packet, the interval
  being 14000) leaves the count at 8, the sum at 800 and the smoothed value at 40: no
  average is taken and nothing is reset.
\<close>

theorem rx_loop_rssi_claim_counterexample:
  "map_option (\<lambda>s. (RSSI_count s, RSSI_sum s, smoothRSSI s))
     (rx_loop_rssi example_config ((example_inputs [] 14000 14)\<lparr>regs := (\<lambda>a. 100)\<rparr>)
        ((example_state (example_bind_data 2 2))
           \<lparr>lastPacketTimeUs := 1000, RSSI_sum := 700, RSSI_count := 7, smoothRSSI := 40\<rparr>))
   = Some (8, 800, 40)"
  by (simp add: rx_loop_rssi_def rfmGetRSSI_def rfm22_read_def Let_def example_state_def
        example_inputs_def getInterval_example)

section \<open>Unpacking the channels\<close>

lemma add_low_byte: "push_bit 8 z + (ucast (a::u8) :: s16) = push_bit 8 z OR ucast a"
proof (rule disjunctive_add)
  fix n
  show "\<not> bit (push_bit 8 z) n \<or> \<not> bit (ucast a :: s16) n"
    by (auto simp: bit_simps dest: bit_imp_le_length)
qed

lemma and_shifted: "(x::s16) AND push_bit n 3 = push_bit n (drop_bit n x AND 3)"
  by (rule bit_eqI) (auto simp: bit_simps)

lemma group_channel_shift:
  fixes b a :: u8
  assumes mn: "m + 2 * k = 8"
  shows "push_bit m ((ucast b :: s16) AND push_bit (2 * k) 3) + ucast a = ppm_fine b a k"
proof -
  let ?z = "drop_bit (2 * k) (ucast b :: s16) AND 3"
  have "push_bit m ((ucast b :: s16) AND push_bit (2 * k) 3) = push_bit m (push_bit (2 * k) ?z)"
    by (simp only: and_shifted)
  also have "\<dots> = push_bit 8 ?z"
    by (simp only: push_bit_push_bit mn)
  finally have "push_bit m ((ucast b :: s16) AND push_bit (2 * k) 3) + ucast a = push_bit 8 ?z + ucast a"
    by (rule arg_cong)
  also have "\<dots> = push_bit 8 ?z OR ucast a" by (rule add_low_byte)
  finally show ?thesis by (simp only: ppm_fine_def)
qed

lemma group_channel:
  fixes b a :: u8
  shows "push_bit 8 (ucast b AND 0x03) + ucast a = ppm_fine b a 0"
    and "push_bit 6 (ucast b AND 0x0c) + ucast a = ppm_fine b a 1"
    and "push_bit 4 (ucast b AND 0x30) + ucast a = ppm_fine b a 2"
    and "push_bit 2 (ucast b AND 0xc0) + ucast a = ppm_fine b a 3"
  using group_channel_shift [of 8 0 b a] group_channel_shift [of 6 1 b a]
    group_channel_shift [of 4 2 b a] group_channel_shift [of 2 3 b a]
  by simp_all


lemma unpackChannels_loop_spec:
  fixes i c :: u8
  assumes "unat i + r = Suc (unat (c div 2))"
    and "5 * r \<le> length p" and "off + 4 * r \<le> length PPM"
  shows "\<exists>PPM'. unpackChannels_loop i c PPM off p = Some (PPM', off + 4 * r, drop (5 * r) p) \<and>
           length PPM' = length PPM \<and>
           (\<forall>g k. g < r \<and> k < 4 \<longrightarrow>
              PPM' ! (off + 4 * g + k) = ppm_fine (p ! (5 * g + 4)) (p ! (5 * g + k)) k) \<and>
           (\<forall>j. j < off \<or> off + 4 * r \<le> j \<longrightarrow> PPM' ! j = PPM ! j)"
  using assms
proof (induction r arbitrary: i PPM off p)
  case 0
  then have "unat (c div 2) < unat i" by simp
  then have "\<not> i \<le> c div 2" by (simp add: word_le_nat_alt)
  then have "unpackChannels_loop i c PPM off p = Some (PPM, off, p)"
    by (subst unpackChannels_loop.simps) simp
  then show ?case by simp
next
  case (Suc r)
  define PPM1 where "PPM1 = PPM[off := push_bit 8 (ucast (p ! 4) AND 0x03) + ucast (p ! 0),
                     off + 1 := push_bit 6 (ucast (p ! 4) AND 0x0c) + ucast (p ! 1),
                     off + 2 := push_bit 4 (ucast (p ! 4) AND 0x30) + ucast (p ! 2),
                     off + 3 := push_bit 2 (ucast (p ! 4) AND 0xc0) + ucast (p ! 3)]"
  from Suc.prems have le: "unat i \<le> unat (c div 2)" by simp
  then have c: "i \<le> c div 2" by (simp add: word_le_nat_alt)
  have "unat c < 256" using unsigned_less [of c] by simp
  then have "unat (c div 2) < 128" by (simp add: unat_div)
  with le have i1: "unat (i + 1) = unat i + 1"
    by (subst unat_add_lem [THEN iffD1]) auto
  from Suc.prems have lens: "5 \<le> length p" "off + 4 \<le> length PPM" by simp_all
  have step: "unpackChannels_loop i c PPM off p = unpackChannels_loop (i + 1) c PPM1 (off + 4) (drop 5 p)"
    using c lens by (subst unpackChannels_loop.simps) (simp add: PPM1_def)
  have l1: "length PPM1 = length PPM" by (simp add: PPM1_def)
  have "\<exists>PPM'. unpackChannels_loop (i + 1) c PPM1 (off + 4) (drop 5 p)
            = Some (PPM', off + 4 + 4 * r, drop (5 * r) (drop 5 p)) \<and>
           length PPM' = length PPM1 \<and>
           (\<forall>g k. g < r \<and> k < 4 \<longrightarrow>
              PPM' ! (off + 4 + 4 * g + k)
                = ppm_fine (drop 5 p ! (5 * g + 4)) (drop 5 p ! (5 * g + k)) k) \<and>
           (\<forall>j. j < off + 4 \<or> off + 4 + 4 * r \<le> j \<longrightarrow> PPM' ! j = PPM1 ! j)"
    using Suc.prems i1 by (intro Suc.IH) (simp_all add: l1)
  then obtain PPM' where
    res: "unpackChannels_loop (i + 1) c PPM1 (off + 4) (drop 5 p)
            = Some (PPM', off + 4 + 4 * r, drop (5 * r) (drop 5 p))"
    and len: "length PPM' = length PPM1"
    and ch: "\<And>g k. g < r \<Longrightarrow> k < 4 \<Longrightarrow> PPM' ! (off + 4 + 4 * g + k)
                = ppm_fine (drop 5 p ! (5 * g + 4)) (drop 5 p ! (5 * g + k)) k"
    and fr: "\<And>j. j < off + 4 \<or> off + 4 + 4 * r \<le> j \<Longrightarrow> PPM' ! j = PPM1 ! j"
    by blast
  have fine: "PPM1 = PPM[off := ppm_fine (p ! 4) (p ! 0) 0, off + 1 := ppm_fine (p ! 4) (p ! 1) 1,
                     off + 2 := ppm_fine (p ! 4) (p ! 2) 2, off + 3 := ppm_fine (p ! 4) (p ! 3) 3]"
    unfolding PPM1_def by (simp only: group_channel)
  have first: "PPM1 ! (off + k) = ppm_fine (p ! 4) (p ! k) k" if "k < 4" for k
  proof -
    from that have "k \<in> {0, 1, 2, 3}" by auto
    then show ?thesis
      using lens by (auto simp: fine)
  qed
  have r1: "unpackChannels_loop i c PPM off p
              = Some (PPM', off + 4 * Suc r, drop (5 * Suc r) p)"
  proof -
    have "off + 4 + 4 * r = off + 4 * Suc r" by simp
    moreover have "drop (5 * r) (drop 5 p) = drop (5 * Suc r) p" by (simp add: add.commute)
    ultimately show ?thesis using step res by (simp only:)
  qed
  have r3: "PPM' ! (off + 4 * g + k) = ppm_fine (p ! (5 * g + 4)) (p ! (5 * g + k)) k"
    if "g < Suc r" "k < 4" for g k
  proof (cases g)
    case 0
    with that fr [of "off + k"] first [of k] show ?thesis by simp
  next
    case (Suc g')
    with that have "g' < r" by simp
    from ch [OF this that(2)] Suc Suc.prems show ?thesis
      by (simp add: add.assoc add.left_commute)
  qed
  have r4: "PPM' ! j = PPM ! j" if "j < off \<or> off + 4 * Suc r \<le> j" for j
  proof -
    from that have "PPM' ! j = PPM1 ! j" by (intro fr) auto
    also from that have "\<dots> = PPM ! j" by (auto simp: PPM1_def)
    finally show ?thesis .
  qed
  from r1 len l1 r3 r4 show ?case by auto
qed

lemma unat_ucast_8_16: "unat (ucast (x::u8) :: s16) = unat x"
  by transfer (simp add: take_bit_nat_eq_self)

lemma ppm_fine_10bit: "unat (ppm_fine b a k) < 1024"
proof -
  define z where "z = drop_bit (2 * k) (ucast b :: s16) AND 3"
  have "z \<le> 3" unfolding z_def by (rule word_and_le1)
  then have z3: "unat z \<le> 3" by (simp add: word_le_nat_alt)
  have "push_bit 8 z = z * 256" by (simp add: push_bit_eq_mult)
  moreover have "unat (z * 256) = unat z * 256"
    using z3 by (subst unat_mult_lem [THEN iffD1]) auto
  ultimately have p: "unat (push_bit 8 z) = unat z * 256" by simp
  have a: "unat (ucast a :: s16) < 256"
    using unsigned_less [of a] by (simp add: unat_ucast_8_16)
  have "ppm_fine b a k = push_bit 8 z + ucast a"
    unfolding ppm_fine_def z_def by (rule add_low_byte [symmetric])
  moreover have "unat (push_bit 8 z + ucast a :: s16) = unat (push_bit 8 z) + unat (ucast a :: s16)"
    using z3 a p by (subst unat_add_lem [THEN iffD1]) auto
  ultimately show ?thesis using z3 a p by simp
qed

lemma odd_and_1: "(config :: u8) AND 1 \<noteq> 0 \<longleftrightarrow> odd (unat config)"
proof -
  have "unat (config AND 1) = unat config mod 2"
    by (simp add: and_one_eq unat_mod)
  moreover have "config AND 1 = 0 \<longleftrightarrow> unat (config AND 1) = 0"
    by (simp add: unsigned_eq_0_iff)
  ultimately show ?thesis by (simp add: odd_iff_mod_2_eq_one)
qed

text \<open>
  Claim C3, as the code has it. For every \<open>config\<close> (in particular for the values 1 to 6
  of \<open>flags & 7\<close>), with enough payload bytes and output entries, \<^verbatim>\<open>unpackChannels\<close>
  decodes \<open>config / 2 + 1\<close> groups of four channels: channel \<open>k\<close> of group \<open>g\<close> is
  \<open>((byte4 >> 2k) & 3) << 8 | byte_k\<close> of the five bytes of the group, a 10-bit value.
  When \<open>config\<close> is odd, the byte after the groups gives four more channels, channel \<open>k\<close>
  being \<open>((byte >> (6 - 2k)) & 3) * 333 + 12\<close>: the first one comes from the two highest
  bits. The other entries of the output array are unchanged.
\<close>

theorem unpackChannels_decodes:
  fixes config :: u8
  assumes lp: "5 * Suc (unat config div 2) + unat config mod 2 \<le> length p"
    and lP: "4 * Suc (unat config div 2) + 4 * (unat config mod 2) \<le> length PPM"
  shows "\<exists>PPM'. unpackChannels config PPM p = Some PPM' \<and> length PPM' = length PPM \<and>
           (\<forall>g k. g < Suc (unat config div 2) \<and> k < 4 \<longrightarrow>
              PPM' ! (4 * g + k) = ppm_fine (p ! (5 * g + 4)) (p ! (5 * g + k)) k \<and>
              unat (PPM' ! (4 * g + k)) < 1024) \<and>
           (odd (unat config) \<longrightarrow>
              (\<forall>k < 4. PPM' ! (4 * Suc (unat config div 2) + k)
                         = ppm_coarse (p ! (5 * Suc (unat config div 2))) (6 - 2 * k))) \<and>
           (\<forall>j. 4 * Suc (unat config div 2) + 4 * (unat config mod 2) \<le> j \<longrightarrow> PPM' ! j = PPM ! j)"
proof -
  define n where "n = Suc (unat config div 2)"
  have d: "unat (config div 2) = unat config div 2" by (simp add: unat_div)
  have "\<exists>PPM'. unpackChannels_loop 0 config PPM 0 p = Some (PPM', 0 + 4 * n, drop (5 * n) p) \<and>
           length PPM' = length PPM \<and>
           (\<forall>g k. g < n \<and> k < 4 \<longrightarrow>
              PPM' ! (0 + 4 * g + k) = ppm_fine (p ! (5 * g + 4)) (p ! (5 * g + k)) k) \<and>
           (\<forall>j. j < 0 \<or> 0 + 4 * n \<le> j \<longrightarrow> PPM' ! j = PPM ! j)"
    using lp lP by (intro unpackChannels_loop_spec) (simp_all add: n_def d)
  then obtain P1 where
    loop: "unpackChannels_loop 0 config PPM 0 p = Some (P1, 4 * n, drop (5 * n) p)"
    and len: "length P1 = length PPM"
    and ch: "\<And>g k. g < n \<Longrightarrow> k < 4 \<Longrightarrow>
               P1 ! (4 * g + k) = ppm_fine (p ! (5 * g + 4)) (p ! (5 * g + k)) k"
    and fr: "\<And>j. 4 * n \<le> j \<Longrightarrow> P1 ! j = PPM ! j"
    by auto
  show ?thesis
  proof (cases "odd (unat config)")
    case False
    then have e: "config AND 1 = 0" using odd_and_1 [of config] by simp
    from False have m: "unat config mod 2 = 0" by presburger
    have "unpackChannels config PPM p = Some P1"
      by (simp add: unpackChannels_def loop e)
    with len ch fr False m show ?thesis
      unfolding n_def [symmetric] by (auto simp: ppm_fine_10bit)
  next
    case True
    then have e: "config AND 1 \<noteq> 0" using odd_and_1 [of config] by simp
    from True have m: "unat config mod 2 = 1" by presburger
    define b where "b = p ! (5 * n)"
    define P2 where "P2 = P1[4 * n := ppm_coarse b 6, 4 * n + 1 := ppm_coarse b 4,
                       4 * n + 2 := ppm_coarse b 2, 4 * n + 3 := ppm_coarse b 0]"
    from lp lP m have l: "5 * n < length p" "4 * n + 4 \<le> length PPM"
      by (simp_all add: n_def)
    have "unpackChannels config PPM p = Some P2"
      using l len e
      by (simp add: unpackChannels_def loop P2_def b_def ppm_coarse_def)
    moreover have "length P2 = length PPM" by (simp add: P2_def len)
    moreover have "P2 ! (4 * g + k) = ppm_fine (p ! (5 * g + 4)) (p ! (5 * g + k)) k"
      if "g < n" "k < 4" for g k
    proof -
      from that have "4 * g + k < 4 * n" by simp
      then have "P2 ! (4 * g + k) = P1 ! (4 * g + k)" by (simp add: P2_def)
      with ch [OF that] show ?thesis by simp
    qed
    moreover have "P2 ! (4 * n + k) = ppm_coarse b (6 - 2 * k)" if "k < 4" for k
    proof -
      from that have "k \<in> {0, 1, 2, 3}" by auto
      then show ?thesis using l len by (auto simp: P2_def)
    qed
    moreover have "P2 ! j = PPM ! j" if "4 * n + 4 \<le> j" for j
      using that fr [of j] by (simp add: P2_def)
    ultimately show ?thesis
      using True m unfolding n_def [symmetric] b_def by (auto simp: ppm_fine_10bit)
  qed
qed

text \<open>
  The theorem for \<open>config = 1\<close>: one group of five bytes and the trailing byte, eight
  channels.
\<close>

theorem unpackChannels_decodes_witness:
  "5 * Suc (unat (1::u8) div 2) + unat (1::u8) mod 2 \<le> length [1, 2, 3, 4, 0x1B, 0x1B :: u8] \<and>
   4 * Suc (unat (1::u8) div 2) + 4 * (unat (1::u8) mod 2) \<le> length (replicate 16 (0::s16)) \<and>
   (\<exists>PPM'. unpackChannels 1 (replicate 16 0) [1, 2, 3, 4, 0x1B, 0x1B] = Some PPM' \<and>
      PPM' ! 0 = 769 \<and> PPM' ! 1 = 514 \<and> PPM' ! 4 = 12 \<and> PPM' ! 7 = 1011 \<and> PPM' ! 8 = 0)"
proof -
  let ?p = "[1, 2, 3, 4, 0x1B, 0x1B :: u8]"
  let ?P = "replicate 16 (0::s16)"
  have h1: "5 * Suc (unat (1::u8) div 2) + unat (1::u8) mod 2 \<le> length ?p" by simp
  have h2: "4 * Suc (unat (1::u8) div 2) + 4 * (unat (1::u8) mod 2) \<le> length ?P" by simp
  from unpackChannels_decodes [OF h1 h2] obtain PPM' where
    u: "unpackChannels 1 ?P ?p = Some PPM'"
    and f: "\<And>g k. g < Suc (unat (1::u8) div 2) \<and> k < 4 \<Longrightarrow>
              PPM' ! (4 * g + k) = ppm_fine (?p ! (5 * g + 4)) (?p ! (5 * g + k)) k"
    and c: "\<And>k. k < 4 \<Longrightarrow> PPM' ! (4 * Suc (unat (1::u8) div 2) + k)
                         = ppm_coarse (?p ! (5 * Suc (unat (1::u8) div 2))) (6 - 2 * k)"
    and r: "\<And>j. 4 * Suc (unat (1::u8) div 2) + 4 * (unat (1::u8) mod 2) \<le> j \<Longrightarrow> PPM' ! j = ?P ! j"
    by auto
  have "PPM' ! 0 = 769" using f [of 0 0] by (simp add: ppm_fine_def)
  moreover have "PPM' ! 1 = 514" using f [of 0 1] by (simp add: ppm_fine_def)
  moreover have "PPM' ! 4 = 12" using c [of 0] by (simp add: ppm_coarse_def)
  moreover have "PPM' ! 7 = 1011" using c [of 3] by (simp add: ppm_coarse_def)
  moreover have "PPM' ! 8 = 0" using r [of 8] by simp
  ultimately show ?thesis using u h1 h2 by blast
qed

text \<open>
  Claim C3 as stated decodes \<open>config / 2\<close> groups, and coarse channel \<open>k\<close> from shift
  \<open>2k\<close>. For \<open>config = 1\<close> that is no group and the coarse channels 0 to 3 from the first
  byte: channel 0 would be 345 and channel 4 untouched. The code decodes the group
  into channels 0 to 3 (channel 0 is 769) and the sixth byte \<open>0x1B\<close> into channels 4 to 7
  as 12, 345, 678, 1011, where the claimed order gives 678 for the second of them.
\<close>

theorem unpackChannels_claim_counterexample:
  "map_option (\<lambda>P. (P ! 0, P ! 1, P ! 2, P ! 3, P ! 4, P ! 5, P ! 6, P ! 7))
     (unpackChannels 1 (replicate 16 0) [1, 2, 3, 4, 0x1B, 0x1B])
     = Some (769, 514, 259, 4, 12, 345, 678, 1011) \<and>
   unpackChannels_claimed 1 (replicate 16 0) [1, 2, 3, 4, 0x1B, 0x1B] ! 0 = 345 \<and>
   unpackChannels_claimed 1 (replicate 16 0) [1, 2, 3, 4, 0x1B, 0x1B] ! 4 = 0 \<and>
   ppm_coarse 0x1B (2 * 1) = 678"
proof -
  have 1: "unpackChannels_loop 1 1 P off p = Some (P, off, p)" for P off p
    by (subst unpackChannels_loop.simps) simp
  have "map_option (\<lambda>P. (P ! 0, P ! 1, P ! 2, P ! 3, P ! 4, P ! 5, P ! 6, P ! 7))
     (unpackChannels 1 (replicate 16 0) [1, 2, 3, 4, 0x1B, 0x1B])
     = Some (769, 514, 259, 4, 12, 345, 678, 1011)"
    unfolding unpackChannels_def
    by (subst unpackChannels_loop.simps) (simp add: 1 numeral_2_eq_2 [symmetric])
  then show ?thesis
    by (simp add: unpackChannels_claimed_def ppm_coarse_def ppm_fine_def)
qed

section \<open>Binding\<close>

lemma tx_packet_B_log:
  "spi_log (tx_packet cfg hw [0x42] s) =
     spi_log s @ wire [(RFM22_transmit_packet_length, 1), (RFM22_fifo_access, 0x42),
                       (RFM22_interrupt_enable1, RF22B_PACKET_SENT_INTERRUPT)]
       @ [[RFM22_interrupt_status1 AND 0x7F, 0xFF], [RFM22_interrupt_status2 AND 0x7F, 0xFF]]
       @ wire [(RFM22_op_and_func_ctrl1, RF22B_PWRSTATE_TX)]"
  by (simp add: tx_packet_def tx_packet_async_def Let_def rfm22_writes_eq rfm22_write_eq
        read_it_status_eq PIOS_OpenLRS_EXT_Int_def wire_def)


lemma no_hw_tx_packet_fields:
  "bind_data (tx_packet cfg hw pkt s) = bind_data s" "saved (tx_packet cfg hw pkt s) = saved s"
  by (simp_all add: tx_packet_def tx_packet_async_def Let_def rfm22_writes_eq rfm22_write_eq
        read_it_status_eq PIOS_OpenLRS_EXT_Int_def)


text \<open>What \<^verbatim>\<open>tx_packet\<close> with the acknowledgement puts on the wire is \<open>tx_packet_B_log\<close>.\<close>

lemma example_fifo:
  "fifo (example_inputs (example_bind_packet ver mp) us ms) 0 = 0x62"
  "fifo (example_inputs (example_bind_packet ver mp) us ms) 1 = ver"
  "fifo (example_inputs (example_bind_packet ver mp) us ms) 40 = mp"
  by (simp_all add: example_inputs_def example_bind_packet_def nth_append)

lemma example_decoded:
  "version (decode_bind_data example_config
      (map (\<lambda>k. fifo (example_inputs (example_bind_packet ver mp) us ms) (Suc k))
         [0 ..< sizeof_bind_data example_config])) = ver"
  "modem_params (decode_bind_data example_config
      (map (\<lambda>k. fifo (example_inputs (example_bind_packet ver mp) us ms) (Suc k))
         [0 ..< sizeof_bind_data example_config])) = mp"
  "length (hopchannel (decode_bind_data example_config
      (map (\<lambda>k. fifo (example_inputs (example_bind_packet ver mp) us ms) (Suc k))
         [0 ..< sizeof_bind_data example_config]))) = 24"
proof -
  let ?f = "fifo (example_inputs (example_bind_packet ver mp) us ms)"
  have sz: "sizeof_bind_data example_config = 41" "decode_bind_data example_config = decode_packed"
    by (simp_all add: example_config_def)
  have n: "map (\<lambda>k. ?f (Suc k)) [0 ..< 41] ! k = ?f (Suc k)" if "k < 41" for k
    using that by simp
  show "version (decode_bind_data example_config (map (\<lambda>k. ?f (Suc k)) [0 ..< sizeof_bind_data example_config])) = ver"
    unfolding sz decode_packed_def using n [of 0] example_fifo(2) [of ver mp us ms] by simp
  show "modem_params (decode_bind_data example_config (map (\<lambda>k. ?f (Suc k)) [0 ..< sizeof_bind_data example_config])) = mp"
    unfolding sz decode_packed_def using n [of 39] example_fifo(3) [of ver mp us ms] by simp
  show "length (hopchannel (decode_bind_data example_config (map (\<lambda>k. ?f (Suc k)) [0 ..< sizeof_bind_data example_config]))) = 24"
    unfolding sz decode_packed_def by simp
qed



section \<open>The index of the modem parameters\<close>

lemma modem_params_at_None_iff: "modem_params_at idx = None \<longleftrightarrow> 5 \<le> unat idx"
  by (simp add: modem_params_at_def array_get_def modem_params_tab_def)

lemma getInterval_None_iff: "getInterval cfg bd = None \<longleftrightarrow> 5 \<le> unat (modem_params bd)"
proof (cases "modem_params_at (modem_params bd)")
  case None
  then show ?thesis by (simp add: getInterval_def modem_params_at_None_iff [symmetric])
next
  case (Some r)
  from modem_params_at_bps [OF Some] have "bps r \<noteq> 0" by auto
  moreover from Some have "\<not> 5 \<le> unat (modem_params bd)"
    using modem_params_at_None_iff [of "modem_params bd"] by simp
  ultimately show ?thesis using Some by (simp add: getInterval_def Let_def)
qed

lemma init_rfm_table_None:
  assumes "5 \<le> unat (modem_params (bind_data s))"
  shows "init_rfm cfg hw False s = None"
proof -
  have "modem_params_at (modem_params (bind_data s)) = None"
    using assms by (simp add: modem_params_at_None_iff)
  then show ?thesis
    by (simp add: init_rfm_def Let_def rfm22_writes_eq read_it_status_eq
          split: gpio_direction.splits)
qed

text \<open>
  Claim C10. The table \<^verbatim>\<open>modem_params[]\<close> has five entries, and
  \<^verbatim>\<open>modem_params[bd->modem_params]\<close> is a read outside the table exactly when the index
  is 5 or more. \<^verbatim>\<open>getInterval\<close> makes this read for every \<open>bind_data\<close>, and so does
  \<^verbatim>\<open>init_rfm\<close> outside bind mode (hence \<^verbatim>\<open>pios_openlrs_setup\<close> on entering normal mode);
  neither tests the index. Nor does the bind protocol: a bind packet of the right version
  whose index is 5 or more is accepted (acknowledged, stored, return value 1), its index
  is then the one in \<^verbatim>\<open>bind_data\<close>, and the setup that follows and every call of
  \<^verbatim>\<open>getInterval\<close> read outside the table.
\<close>

theorem modem_params_unchecked:
  "(modem_params_at idx = None \<longleftrightarrow> 5 \<le> unat idx) \<and>
   (getInterval cfg bd = None \<longleftrightarrow> 5 \<le> unat (modem_params bd)) \<and>
   (5 \<le> unat (modem_params (bind_data s)) \<longrightarrow>
      init_rfm cfg hw False s = None \<and> setup_normal_mode cfg hw s = None) \<and>
   (fifo hw 0 = 0x62 \<and>
    rx = decode_bind_data cfg (map (\<lambda>k. fifo hw (Suc k)) [0 ..< sizeof_bind_data cfg]) \<and>
    version rx = BINDING_VERSION cfg \<and>
    OPENLRS_HOPCHANNEL_NUMELEM cfg \<le> length (hopchannel rx) \<and>
    5 \<le> unat (modem_params rx) \<longrightarrow>
      (\<exists>s'. bind_receive_packet cfg hw s = Some (True, s') \<and> bind_data s' = rx \<and>
            modem_params_at (modem_params (bind_data s')) = None \<and>
            setup_normal_mode cfg hw' s' = None \<and>
            getInterval cfg (bind_data s') = None))"
proof (intro conjI impI)
  show "modem_params_at idx = None \<longleftrightarrow> 5 \<le> unat idx" by (rule modem_params_at_None_iff)
  show "getInterval cfg bd = None \<longleftrightarrow> 5 \<le> unat (modem_params bd)" by (rule getInterval_None_iff)
next
  assume a: "5 \<le> unat (modem_params (bind_data s))"
  then show i: "init_rfm cfg hw False s = None" by (rule init_rfm_table_None)
  then show "setup_normal_mode cfg hw s = None" by (simp add: setup_normal_mode_def)
next
  assume a: "fifo hw 0 = 0x62 \<and>
    rx = decode_bind_data cfg (map (\<lambda>k. fifo hw (Suc k)) [0 ..< sizeof_bind_data cfg]) \<and>
    version rx = BINDING_VERSION cfg \<and>
    OPENLRS_HOPCHANNEL_NUMELEM cfg \<le> length (hopchannel rx) \<and>
    5 \<le> unat (modem_params rx)"
  define s1 where "s1 = s\<lparr>spi_log := spi_log s @ [[0x7f], [0x00], replicate (sizeof_bind_data cfg) 0xFF],
                      bind_data := rx\<rparr>"
  define s' where "s' = (tx_packet cfg hw [0x42] s1)
                         \<lparr>saved := saved s @
                            [rx\<lparr>hopchannel := take (OPENLRS_HOPCHANNEL_NUMELEM cfg) (hopchannel rx)\<rparr>]\<rparr>"
  from a have rx: "decode_bind_data cfg (map (\<lambda>k. fifo hw (Suc k)) [0 ..< sizeof_bind_data cfg]) = rx"
    by simp
  have 1: "bind_receive_packet cfg hw s = Some (True, s')"
    using a unfolding bind_receive_packet_def Let_def rx
    by (simp add: s1_def s'_def no_hw_tx_packet_fields)
  have 2: "bind_data s' = rx" by (simp add: s'_def s1_def no_hw_tx_packet_fields)
  from a have "5 \<le> unat (modem_params rx)" by blast
  then have 3: "5 \<le> unat (modem_params (bind_data s'))" by (simp only: 2)
  have 4: "setup_normal_mode cfg hw' s' = None"
    using init_rfm_table_None [OF 3] by (simp add: setup_normal_mode_def)
  from 1 2 3 4 show "\<exists>s'. bind_receive_packet cfg hw s = Some (True, s') \<and> bind_data s' = rx \<and>
            modem_params_at (modem_params (bind_data s')) = None \<and>
            setup_normal_mode cfg hw' s' = None \<and>
            getInterval cfg (bind_data s') = None"
    by (auto simp: getInterval_None_iff modem_params_at_None_iff)
qed

text \<open>The theorem for a bind packet of version 0x38 with the index 7.\<close>

theorem modem_params_unchecked_witness:
  "fifo (example_inputs (example_bind_packet 0x38 7) 0 0) 0 = 0x62 \<and>
   5 \<le> unat (7 :: u8) \<and>
   (\<exists>s'. bind_receive_packet example_config (example_inputs (example_bind_packet 0x38 7) 0 0)
           ((example_state (example_bind_data 2 2))\<lparr>rf_mode := Received\<rparr>) = Some (True, s') \<and>
         modem_params (bind_data s') = 7 \<and>
         setup_normal_mode example_config (example_inputs [] 0 0) s' = None \<and>
         getInterval example_config (bind_data s') = None)"
proof -
  let ?hw = "example_inputs (example_bind_packet 0x38 7) 0 0"
  let ?init = "(example_state (example_bind_data 2 2))\<lparr>rf_mode := Received\<rparr>"
  let ?rx = "decode_bind_data example_config (map (\<lambda>k. fifo ?hw (Suc k)) [0 ..< sizeof_bind_data example_config])"
  have h: "fifo ?hw 0 = 0x62 \<and> ?rx = ?rx \<and> version ?rx = BINDING_VERSION example_config \<and>
    OPENLRS_HOPCHANNEL_NUMELEM example_config \<le> length (hopchannel ?rx) \<and>
    5 \<le> unat (modem_params ?rx)"
    by (simp add: example_fifo example_decoded) (simp add: example_config_def)
  have m: "modem_params ?rx = 7" by (rule example_decoded)
  from modem_params_unchecked [of 0 example_config "example_bind_data 2 2" ?init ?hw ?rx
      "example_inputs [] 0 0"] h
  have "\<exists>s'. bind_receive_packet example_config ?hw ?init = Some (True, s') \<and> bind_data s' = ?rx \<and>
            modem_params_at (modem_params (bind_data s')) = None \<and>
            setup_normal_mode example_config (example_inputs [] 0 0) s' = None \<and>
            getInterval example_config (bind_data s') = None"
    by blast
  then show ?thesis using m by (auto simp: example_fifo)
qed

section \<open>Invariants of the receive loop\<close>

subsection \<open>What a pass leaves alone\<close>

lemma keeps_link_refl: "keeps_link s s"
  by (simp add: keeps_link_def)

lemma keeps_link_trans: "keeps_link a b \<Longrightarrow> keeps_link b c \<Longrightarrow> keeps_link a c"
  by (simp add: keeps_link_def)

lemma keeps_link_no_hw: "no_hw s' = no_hw s \<Longrightarrow> keeps_link s s'"
  using no_hw_fields [of s' s] by (simp add: keeps_link_def)

lemma keeps_link_EXT_Int: "keeps_link s (PIOS_OpenLRS_EXT_Int cfg s)"
  by (simp add: keeps_link_def PIOS_OpenLRS_EXT_Int_def Let_def)

lemma keeps_link_lockup:
  assumes "rx_loop_lockup cfg hw s = Some s'"
  shows "keeps_link s s'"
proof -
  have "no_hw s' = no_hw s"
    using assms no_hw_read [of hw "0x0C" s]
    by (auto simp: rx_loop_lockup_def Let_def bind_eq_Some_conv no_hw_to_rx_mode
        split: prod.splits if_splits dest!: no_hw_init_rfm)
  then show ?thesis by (rule keeps_link_no_hw)
qed

lemma unpackChannels_loop_length:
  "unpackChannels_loop i c PPM off p = Some (PPM', off', p') \<Longrightarrow> length PPM' = length PPM"
proof (induction i c PPM off p rule: unpackChannels_loop.induct)
  case (1 i config PPM off p)
  show ?case
  proof (cases "i \<le> config div 2")
    case False
    with "1.prems" show ?thesis by (subst (asm) unpackChannels_loop.simps) simp
  next
    case True
    with "1.prems" have l: "\<not> (length p < 5 \<or> length PPM < off + 4)"
      by (subst (asm) unpackChannels_loop.simps) (auto split: if_splits)
    with True "1.prems" have
      "unpackChannels_loop (i + 1) config
         (PPM[off := push_bit 8 (ucast (p ! 4) AND 0x03) + ucast (p ! 0),
              off + 1 := push_bit 6 (ucast (p ! 4) AND 0x0c) + ucast (p ! 1),
              off + 2 := push_bit 4 (ucast (p ! 4) AND 0x30) + ucast (p ! 2),
              off + 3 := push_bit 2 (ucast (p ! 4) AND 0xc0) + ucast (p ! 3)])
         (off + 4) (drop 5 p) = Some (PPM', off', p')"
      by (subst (asm) unpackChannels_loop.simps) simp
    from "1.IH" [OF True l this] show ?thesis by simp
  qed
qed

lemma unpackChannels_length:
  "unpackChannels c PPM p = Some PPM' \<Longrightarrow> length PPM' = length PPM"
  by (auto simp: unpackChannels_def bind_eq_Some_conv split: if_splits
      dest: unpackChannels_loop_length)

lemma keeps_link_drain:
  assumes "rx_loop_drain cfg hw s = Some s'"
  shows "keeps_link s s'"
proof (cases "rf_mode s = Received")
  case False
  with assms show ?thesis by (simp add: rx_loop_drain_def keeps_link_refl)
next
  case True
  have f: "rf_channel (rx_reset hw t) = rf_channel t" "hopcount (rx_reset hw t) = hopcount t"
    "bind_data (rx_reset hw t) = bind_data t" "link_acquired (rx_reset hw t) = link_acquired t"
    "rx_buf (rx_reset hw t) = rx_buf t" "ppm (rx_reset hw t) = ppm t" for t
    using no_hw_fields [OF no_hw_rx_reset [of hw t]] by simp_all
  from assms True show ?thesis
    by (auto simp: rx_loop_drain_def Let_def bind_eq_Some_conv keeps_link_def f rfmGetAFCC_def
        rfm22_read_def split: if_splits prod.splits dest: unpackChannels_length)
qed

lemma keeps_link_rssi:
  assumes "rx_loop_rssi cfg hw s = Some s'"
  shows "keeps_link s s'"
  using assms
  by (auto simp: rx_loop_rssi_def Let_def bind_eq_Some_conv keeps_link_def rfmGetRSSI_def
      rfm22_read_def split: if_splits prod.splits)

lemma keeps_link_link:
  assumes "rx_loop_link cfg hw s = Some s'"
  shows "keeps_link s s'"
  using assms
  by (auto simp: rx_loop_link_def Let_def bind_eq_Some_conv keeps_link_def split: if_splits)

subsection \<open>The hop count and the hop step\<close>

lemma hop_count_le: "hop_count cfg hc \<le> unat (MAXHOPS cfg)" "hop_count cfg hc \<le> length hc"
proof -
  have "hop_count cfg hc \<le> length (take (unat (MAXHOPS cfg)) hc)"
    unfolding hop_count_def by (rule length_takeWhile_le)
  then show "hop_count cfg hc \<le> unat (MAXHOPS cfg)" "hop_count cfg hc \<le> length hc" by simp_all
qed

lemma hop_count_nonzero:
  assumes "k < hop_count cfg hc"
  shows "hc ! k \<noteq> 0"
proof -
  let ?t = "take (unat (MAXHOPS cfg)) hc"
  let ?w = "takeWhile (\<lambda>c. c \<noteq> 0) ?t"
  from assms have k: "k < length ?w" by (simp add: hop_count_def)
  then have "?w ! k \<in> set ?w" by (rule nth_mem)
  then have "?w ! k \<noteq> 0" by (auto dest: set_takeWhileD)
  moreover have "?w ! k = ?t ! k" using k by (rule takeWhile_nth)
  moreover have "?t ! k = hc ! k"
    using assms hop_count_le(1) [of cfg hc] by simp
  ultimately show ?thesis by simp
qed

lemma hop_count_terminator:
  assumes "hop_count cfg hc < unat (MAXHOPS cfg)" "hop_count cfg hc < length hc"
  shows "hc ! hop_count cfg hc = 0"
proof -
  let ?t = "take (unat (MAXHOPS cfg)) hc"
  from assms have "length (takeWhile (\<lambda>c. c \<noteq> 0) ?t) < length ?t"
    by (simp add: hop_count_def)
  then have "\<not> (?t ! length (takeWhile (\<lambda>c. c \<noteq> 0) ?t) \<noteq> 0)"
    by (rule nth_length_takeWhile)
  then show ?thesis using assms by (simp add: hop_count_def)
qed

lemma hop_count_eqI:
  assumes "n \<le> unat (MAXHOPS cfg)" "n \<le> length hc"
    and "\<And>k. k < n \<Longrightarrow> hc ! k \<noteq> 0"
    and "n < unat (MAXHOPS cfg) \<Longrightarrow> n < length hc \<and> hc ! n = 0"
  shows "hop_count cfg hc = n"
proof -
  let ?t = "take (unat (MAXHOPS cfg)) hc"
  have "takeWhile (\<lambda>c. c \<noteq> 0) ?t = take n ?t"
  proof (rule takeWhile_eq_take_P_nth)
    fix i assume "i < n" "i < length ?t"
    then show "?t ! i \<noteq> 0" using assms(3) [of i] by simp
  next
    assume "n < length ?t"
    then show "\<not> ?t ! n \<noteq> 0" using assms(4) by simp
  qed
  then show ?thesis using assms(1,2) by (simp add: hop_count_def)
qed

lemma hop_count_pos_iff:
  "0 < hop_count cfg hc \<longleftrightarrow> 0 < unat (MAXHOPS cfg) \<and> hc \<noteq> [] \<and> hc ! 0 \<noteq> 0"
  by (cases hc; cases "unat (MAXHOPS cfg)") (simp_all add: hop_count_def)

lemma rx_loop_hop_cases:
  assumes "rx_loop_hop cfg s = Some s'"
  obtains "\<not> willhop s" "s' = s"
  | ch u where "willhop s"
      "ch = (if rf_channel s + 1 = MAXHOPS cfg \<or>
                hopchannel (bind_data s) ! unat (rf_channel s + 1) = 0
             then 0 else rf_channel s + 1)"
      "rf_channel s + 1 \<noteq> MAXHOPS cfg \<longrightarrow>
         unat (rf_channel s + 1) < length (hopchannel (bind_data s))"
      "rfmSetChannel ch (s\<lparr>rf_channel := ch\<rparr>) = Some u" "s' = u\<lparr>willhop := False\<rparr>"
proof (cases "willhop s")
  case False
  with assms have "s' = s" by (simp add: rx_loop_hop_def)
  with False that(1) show ?thesis by blast
next
  case True
  show ?thesis
  proof (cases "rf_channel s + 1 = MAXHOPS cfg")
    case m: True
    with assms True obtain u where "rfmSetChannel 0 (s\<lparr>rf_channel := 0\<rparr>) = Some u"
      "s' = u\<lparr>willhop := False\<rparr>"
      by (auto simp: rx_loop_hop_def Let_def bind_eq_Some_conv)
    with True m that(2) [of 0 u] show ?thesis by simp
  next
    case m: False
    with assms True obtain c where c: "array_get (hopchannel (bind_data s)) (unat (rf_channel s + 1)) = Some c"
      by (auto simp: rx_loop_hop_def Let_def bind_eq_Some_conv)
    then have l: "unat (rf_channel s + 1) < length (hopchannel (bind_data s))"
      and cv: "c = hopchannel (bind_data s) ! unat (rf_channel s + 1)"
      by (auto simp: array_get_def split: if_splits)
    define ch where "ch = (if c = 0 then 0 else rf_channel s + 1)"
    from assms True m c obtain u where "rfmSetChannel ch (s\<lparr>rf_channel := ch\<rparr>) = Some u"
      "s' = u\<lparr>willhop := False\<rparr>"
      by (auto simp: rx_loop_hop_def Let_def bind_eq_Some_conv ch_def split: if_splits)
    with True m l cv that(2) [of ch u] show ?thesis by (simp add: ch_def)
  qed
qed

lemma rx_loop_hop_fields:
  assumes "rx_loop_hop cfg s = Some s'"
  shows "hopcount s' = hopcount s" "bind_data s' = bind_data s" "link_acquired s' = link_acquired s"
proof -
  have "hopcount s' = hopcount s \<and> bind_data s' = bind_data s \<and> link_acquired s' = link_acquired s"
    using assms
  proof (cases rule: rx_loop_hop_cases)
    case 1
    then show ?thesis by simp
  next
    case (2 ch u)
    from no_hw_fields [OF no_hw_rfmSetChannel [OF 2(4)]] 2(5) show ?thesis by simp
  qed
  then show "hopcount s' = hopcount s" "bind_data s' = bind_data s"
    "link_acquired s' = link_acquired s" by simp_all
qed

lemma rx_loop_hop_channel:
  assumes "rx_loop_hop cfg s = Some s'"
  shows "rf_channel s' =
           (if willhop s then
              (if rf_channel s + 1 = MAXHOPS cfg \<or>
                  hopchannel (bind_data s) ! unat (rf_channel s + 1) = 0
               then 0 else rf_channel s + 1)
            else rf_channel s)"
    and "willhop s \<and> rf_channel s + 1 \<noteq> MAXHOPS cfg \<longrightarrow>
           unat (rf_channel s + 1) < length (hopchannel (bind_data s))"
proof -
  have "rf_channel s' =
           (if willhop s then
              (if rf_channel s + 1 = MAXHOPS cfg \<or>
                  hopchannel (bind_data s) ! unat (rf_channel s + 1) = 0
               then 0 else rf_channel s + 1)
            else rf_channel s) \<and>
        (willhop s \<and> rf_channel s + 1 \<noteq> MAXHOPS cfg \<longrightarrow>
           unat (rf_channel s + 1) < length (hopchannel (bind_data s)))"
    using assms
  proof (cases rule: rx_loop_hop_cases)
    case 1
    then show ?thesis by simp
  next
    case (2 ch u)
    from no_hw_fields(5) [OF no_hw_rfmSetChannel [OF 2(4)]] 2(5) have "rf_channel s' = ch" by simp
    with 2(1,2,3) show ?thesis by simp
  qed
  then show "rf_channel s' =
           (if willhop s then
              (if rf_channel s + 1 = MAXHOPS cfg \<or>
                  hopchannel (bind_data s) ! unat (rf_channel s + 1) = 0
               then 0 else rf_channel s + 1)
            else rf_channel s)"
    and "willhop s \<and> rf_channel s + 1 \<noteq> MAXHOPS cfg \<longrightarrow>
           unat (rf_channel s + 1) < length (hopchannel (bind_data s))"
    by simp_all
qed

lemma rx_loop_hop_inv:
  assumes hop: "rx_loop_hop cfg s = Some s'"
    and inv: "unat (rf_channel s) < hop_count cfg (hopchannel (bind_data s))"
  shows "unat (rf_channel s') < hop_count cfg (hopchannel (bind_data s'))"
proof -
  let ?hc = "hopchannel (bind_data s)"
  let ?n = "hop_count cfg ?hc"
  have bd: "bind_data s' = bind_data s" using hop by (rule rx_loop_hop_fields)
  note ch = rx_loop_hop_channel [OF hop]
  have M: "unat (MAXHOPS cfg) < 256" using unsigned_less [of "MAXHOPS cfg"] by simp
  from inv hop_count_le(1) [of cfg ?hc] M have u: "unat (rf_channel s + 1) = unat (rf_channel s) + 1"
    by (subst unat_add_lem [THEN iffD1]) auto
  show ?thesis
  proof (cases "willhop s")
    case False
    with ch(1) inv bd show ?thesis by simp
  next
    case True
    show ?thesis
    proof (cases "rf_channel s + 1 = MAXHOPS cfg \<or> ?hc ! unat (rf_channel s + 1) = 0")
      case wrap: True
      with ch(1) \<open>willhop s\<close> have "rf_channel s' = 0" by simp
      with inv bd show ?thesis by simp
    next
      case stay: False
      with ch(1) \<open>willhop s\<close> have r: "rf_channel s' = rf_channel s + 1" by simp
      from stay have ne: "unat (rf_channel s) + 1 \<noteq> unat (MAXHOPS cfg)"
        using u by (metis word_unat_eq_iff)
      from stay ch(2) \<open>willhop s\<close> have len: "unat (rf_channel s) + 1 < length ?hc"
        using u by simp
      have "unat (rf_channel s) + 1 < ?n"
      proof (rule ccontr)
        assume "\<not> unat (rf_channel s) + 1 < ?n"
        with inv have e: "?n = unat (rf_channel s) + 1" by simp
        with ne hop_count_le(1) [of cfg ?hc] have "?n < unat (MAXHOPS cfg)" by simp
        moreover from e len have "?n < length ?hc" by simp
        ultimately have "?hc ! ?n = 0" by (rule hop_count_terminator)
        with stay e u show False by simp
      qed
      with r u bd show ?thesis by simp
    qed
  qed
qed

subsection \<open>A pass, the setup and the task loop\<close>

lemma rx_loop_keeps_link:
  assumes "pios_openlrs_rx_loop cfg hw s = Some s'"
  obtains t where "keeps_link s t" "rx_loop_hop cfg t = Some s'"
proof -
  from assms obtain s1 s2 s3 s4 where
    1: "rx_loop_lockup cfg hw s = Some s1" and 2: "rx_loop_drain cfg hw s1 = Some s2"
    and 3: "rx_loop_rssi cfg hw s2 = Some s3" and 4: "rx_loop_link cfg hw s3 = Some s4"
    and 5: "rx_loop_hop cfg s4 = Some s'"
    by (auto simp: pios_openlrs_rx_loop_def bind_eq_Some_conv)
  have "keeps_link s s4"
    using keeps_link_lockup [OF 1] keeps_link_drain [OF 2] keeps_link_rssi [OF 3]
      keeps_link_link [OF 4]
    by (blast intro: keeps_link_trans)
  with 5 that show ?thesis by blast
qed

lemma rx_loop_link_acquired:
  assumes "pios_openlrs_rx_loop cfg hw s = Some s'" "link_acquired s"
  shows "link_acquired s'"
proof -
  from assms(1) obtain t where t: "keeps_link s t" "rx_loop_hop cfg t = Some s'"
    by (rule rx_loop_keeps_link)
  from t(1) assms(2) have "link_acquired t" by (simp add: keeps_link_def)
  with rx_loop_hop_fields(3) [OF t(2)] show ?thesis by simp
qed

lemma rx_loop_channel_inv:
  assumes "pios_openlrs_rx_loop cfg hw s = Some s'"
    and "unat (rf_channel s) < hop_count cfg (hopchannel (bind_data s))"
  shows "unat (rf_channel s') < hop_count cfg (hopchannel (bind_data s'))"
    and "hopcount s' = hopcount s" and "bind_data s' = bind_data s"
proof -
  from assms(1) obtain t where t: "keeps_link s t" "rx_loop_hop cfg t = Some s'"
    by (rule rx_loop_keeps_link)
  from t(1) have k: "rf_channel t = rf_channel s" "hopcount t = hopcount s" "bind_data t = bind_data s"
    by (simp_all add: keeps_link_def)
  with assms(2) have "unat (rf_channel t) < hop_count cfg (hopchannel (bind_data t))" by simp
  from rx_loop_hop_inv [OF t(2) this]
  show "unat (rf_channel s') < hop_count cfg (hopchannel (bind_data s'))" .
  from rx_loop_hop_fields [OF t(2)] k
  show "hopcount s' = hopcount s" "bind_data s' = bind_data s" by simp_all
qed

lemma setup_count_hops_spec:
  assumes "setup_count_hops cfg hc h = Some h'"
    and "unat h \<le> unat (MAXHOPS cfg)" and "unat h \<le> length hc"
    and "\<And>k. k < unat h \<Longrightarrow> hc ! k \<noteq> 0"
  shows "unat h' = hop_count cfg hc"
  using assms
proof (induction cfg hc h rule: setup_count_hops.induct)
  case (1 cfg hc h)
  show ?case
  proof (cases "h < MAXHOPS cfg")
    case False
    with "1.prems"(1) have e: "h' = h" by (subst (asm) setup_count_hops.simps) simp
    from False "1.prems"(2) have "unat h = unat (MAXHOPS cfg)" by (simp add: word_less_nat_alt)
    with "1.prems" have "hop_count cfg hc = unat h" by (intro hop_count_eqI) auto
    with e show ?thesis by simp
  next
    case True
    then have lt: "unat h < unat (MAXHOPS cfg)" by (simp add: word_less_nat_alt)
    have "unat (MAXHOPS cfg) < 256" using unsigned_less [of "MAXHOPS cfg"] by simp
    with lt have u: "unat (h + 1) = unat h + 1"
      by (subst unat_add_lem [THEN iffD1]) auto
    from True "1.prems"(1) obtain c where c: "array_get hc (unat h) = Some c"
      by (subst (asm) setup_count_hops.simps) (auto split: option.splits)
    then have l: "unat h < length hc" and cv: "c = hc ! unat h"
      by (auto simp: array_get_def split: if_splits)
    show ?thesis
    proof (cases "c = 0")
      case z: True
      with True c "1.prems"(1) have e: "h' = h" by (subst (asm) setup_count_hops.simps) simp
      from "1.prems" l cv z have "hop_count cfg hc = unat h" by (intro hop_count_eqI) auto
      with e show ?thesis by simp
    next
      case nz: False
      with True c "1.prems"(1) have r: "setup_count_hops cfg hc (h + 1) = Some h'"
        by (subst (asm) setup_count_hops.simps) simp
      have "hc ! k \<noteq> 0" if "k < unat (h + 1)" for k
      proof (cases "k < unat h")
        case True
        then show ?thesis by (rule "1.prems"(4))
      next
        case False
        with that u have "k = unat h" by simp
        with nz cv show ?thesis by simp
      qed
      with True c nz r lt l u show ?thesis
        by (intro "1.IH" [of c]) simp_all
    qed
  qed
qed

lemma setup_normal_mode_fields:
  assumes "setup_normal_mode cfg hw s = Some s'"
  shows "rf_channel s' = 0" "bind_data s' = bind_data s" "\<not> link_acquired s'"
    "unat (hopcount s') = hop_count cfg (hopchannel (bind_data s))"
proof -
  from assms obtain s1 s2 h where i: "init_rfm cfg hw False s = Some s1"
    and c: "rfmSetChannel 0 (s1\<lparr>rf_channel := 0\<rparr>) = Some s2"
    and h: "setup_count_hops cfg (hopchannel (bind_data s2)) 0 = Some h"
    and s': "s' = (to_rx_mode hw (s2\<lparr>hopcount := h, rf_mode := Receive\<rparr>))
                  \<lparr>link_acquired := False, lastPacketTimeUs := timeUs hw\<rparr>"
    by (auto simp: setup_normal_mode_def Let_def bind_eq_Some_conv)
  note f1 = no_hw_fields [OF no_hw_init_rfm [OF i]]
  note f2 = no_hw_fields [OF no_hw_rfmSetChannel [OF c]]
  note f3 = no_hw_fields [OF no_hw_to_rx_mode [of hw "s2\<lparr>hopcount := h, rf_mode := Receive\<rparr>"]]
  have b2: "bind_data s2 = bind_data s" using f1(3) f2(3) by simp
  show "rf_channel s' = 0" using f3(5) f2(5) by (simp add: s')
  show "bind_data s' = bind_data s" using f3(3) b2 by (simp add: s')
  show "\<not> link_acquired s'" by (simp add: s')
  have "unat h = hop_count cfg (hopchannel (bind_data s))"
    using h unfolding b2 by (rule setup_count_hops_spec) simp_all
  then show "unat (hopcount s') = hop_count cfg (hopchannel (bind_data s))"
    using f3(10) by (simp add: s')
qed

lemma task_loop_inv:
  assumes "task_loop cfg es s = Some s'"
    and "unat (rf_channel s) < hop_count cfg (hopchannel (bind_data s))"
  shows "unat (rf_channel s') < hop_count cfg (hopchannel (bind_data s')) \<and>
         hopcount s' = hopcount s \<and> bind_data s' = bind_data s"
  using assms
proof (induction cfg es s rule: task_loop.induct)
  case (1 cfg s)
  then show ?case by simp
next
  case (2 cfg es s)
  have k: "keeps_link s (PIOS_OpenLRS_EXT_Int cfg s)" by (rule keeps_link_EXT_Int)
  then have "unat (rf_channel (PIOS_OpenLRS_EXT_Int cfg s))
       < hop_count cfg (hopchannel (bind_data (PIOS_OpenLRS_EXT_Int cfg s)))"
    using "2.prems"(2) by (simp add: keeps_link_def)
  with "2.prems"(1) "2.IH" k show ?case by (auto simp: keeps_link_def)
next
  case (3 cfg hw es s)
  from "3.prems"(1) obtain t where t: "pios_openlrs_rx_loop cfg hw s = Some t"
    and r: "task_loop cfg es t = Some s'"
    by (auto split: option.splits)
  note i = rx_loop_channel_inv [OF t "3.prems"(2)]
  from "3.IH" [OF t r i(1)] i(2,3) show ?case by auto
qed

lemma task_loop_link_acquired:
  assumes "task_loop cfg es s = Some s'" "link_acquired s"
  shows "link_acquired s'"
  using assms
proof (induction cfg es s rule: task_loop.induct)
  case (1 cfg s)
  then show ?case by simp
next
  case (2 cfg es s)
  have "link_acquired (PIOS_OpenLRS_EXT_Int cfg s)"
    using keeps_link_EXT_Int [of s cfg] "2.prems"(2) by (simp add: keeps_link_def)
  with "2.prems"(1) "2.IH" show ?case by simp
next
  case (3 cfg hw es s)
  from "3.prems"(1) obtain t where t: "pios_openlrs_rx_loop cfg hw s = Some t"
    and r: "task_loop cfg es t = Some s'"
    by (auto split: option.splits)
  from "3.IH" [OF t r rx_loop_link_acquired [OF t "3.prems"(2)]] show ?case .
qed

subsection \<open>Defined behaviour\<close>

text \<open>
  In a well-formed state whose channel index is below the hop count, every part of a
  pass of the receive loop has a defined result, and the state after the pass is again
  such a state. So the task loop has a result for every sequence of events.
\<close>

lemma carrier_defined:
  assumes "240000000 \<le> unat f" "unat f < 2160000000"
  shows "\<exists>s'. rfmSetCarrierFrequency f s = Some s'"
proof -
  from carrier_exact_arithmetic [OF assms] obtain h fb fc
    where "carrier_hbsel_fb_fc f = Some (h, fb, fc)" by blast
  then show ?thesis by (simp add: rfmSetCarrierFrequency_def)
qed

lemma init_rfm_defined:
  assumes "unat (modem_params (bind_data s)) < 5"
    and "240000000 \<le> unat (rf_frequency (bind_data s))"
    and "unat (rf_frequency (bind_data s)) < 2160000000"
  shows "\<exists>s'. init_rfm cfg hw False s = Some s'"
proof -
  from assms(1) obtain r where r: "modem_params_at (modem_params (bind_data s)) = Some r"
    using modem_params_at_Some_iff by blast
  show ?thesis
    using carrier_defined [OF assms(2,3)] r
    by (simp add: init_rfm_def Let_def rfm22_writes_eq read_it_status_eq setModemRegs_def
        split: gpio_direction.splits)
qed

lemma well_formed_keeps_link:
  "keeps_link s s' \<Longrightarrow> well_formed cfg s \<Longrightarrow> well_formed cfg s'"
  by (simp add: keeps_link_def well_formed_def)

lemma unpackChannels_defined:
  fixes config :: u8
  assumes lp: "5 * Suc (unat config div 2) + unat config mod 2 \<le> length p"
    and lP: "4 * Suc (unat config div 2) + 4 * (unat config mod 2) \<le> length PPM"
  shows "\<exists>PPM'. unpackChannels config PPM p = Some PPM'"
proof -
  define n where "n = Suc (unat config div 2)"
  have d: "unat (config div 2) = unat config div 2" by (simp add: unat_div)
  have "\<exists>PPM'. unpackChannels_loop 0 config PPM 0 p = Some (PPM', 0 + 4 * n, drop (5 * n) p) \<and>
           length PPM' = length PPM \<and>
           (\<forall>g k. g < n \<and> k < 4 \<longrightarrow>
              PPM' ! (0 + 4 * g + k) = ppm_fine (p ! (5 * g + 4)) (p ! (5 * g + k)) k) \<and>
           (\<forall>j. j < 0 \<or> 0 + 4 * n \<le> j \<longrightarrow> PPM' ! j = PPM ! j)"
    using lp lP by (intro unpackChannels_loop_spec) (simp_all add: n_def d)
  then obtain P1 where
    loop: "unpackChannels_loop 0 config PPM 0 p = Some (P1, 4 * n, drop (5 * n) p)"
    and len: "length P1 = length PPM"
    by auto
  show ?thesis
  proof (cases "odd (unat config)")
    case False
    then have e: "config AND 1 = 0" using odd_and_1 [of config] by simp
    show ?thesis by (simp add: unpackChannels_def loop e)
  next
    case True
    then have e: "config AND 1 \<noteq> 0" using odd_and_1 [of config] by simp
    from True have m: "unat config mod 2 = 1" by presburger
    from lp lP m have l: "5 * n < length p" "4 * n + 4 \<le> length PPM"
      by (simp_all add: n_def)
    show ?thesis using l len e by (simp add: unpackChannels_def loop)
  qed
qed

lemma rx_loop_lockup_defined:
  assumes "well_formed cfg s"
  shows "\<exists>s'. rx_loop_lockup cfg hw s = Some s'"
proof -
  obtain v t where r: "rfm22_read hw 0x0C s = (v, t)" by (cases "rfm22_read hw 0x0C s")
  then have "bind_data t = bind_data s" by (auto simp: rfm22_read_def)
  with assms obtain u where "init_rfm cfg hw False t = Some u"
    using init_rfm_defined [of t cfg hw] by (auto simp: well_formed_def)
  with r show ?thesis by (simp add: rx_loop_lockup_def)
qed

lemma unpack_sizes:
  assumes "c < (8::nat)"
  shows "5 * Suc (c div 2) + c mod 2 \<le> 21"
proof -
  from assms have "c div 2 \<le> 3" by linarith
  moreover have "c mod 2 \<le> 1" by linarith
  ultimately show ?thesis by simp
qed

lemma rx_loop_drain_defined:
  assumes "well_formed cfg s"
  shows "\<exists>s'. rx_loop_drain cfg hw s = Some s'"
proof (cases "rf_mode s = Received")
  case False
  then show ?thesis by (simp add: rx_loop_drain_def)
next
  case True
  define n where "n = unat (getPacketSize (bind_data s))"
  define buf where "buf = map (fifo hw) [0 ..< n] @ drop n (rx_buf s)"
  define c where "c = flags (bind_data s) AND 7"
  from assms have len: "22 \<le> length (rx_buf s)"
    and lp: "4 * Suc (unat c div 2) + 4 * (unat c mod 2) \<le> length (ppm s)"
    by (simp_all add: well_formed_def Let_def c_def)
  have n21: "n \<le> 21" unfolding n_def by (rule getPacketSize_le)
  with len have lb: "length buf = length (rx_buf s)" by (simp add: buf_def)
  have c8: "unat c < 8" unfolding c_def by (rule and7_less)
  from unpack_sizes [OF c8] len lb
  have "5 * Suc (unat c div 2) + unat c mod 2 \<le> length (drop 1 buf)" by simp
  from unpackChannels_defined [OF this lp] obtain P where
    "unpackChannels c (ppm s) (drop 1 buf) = Some P" by blast
  then have P: "unpackChannels c (ppm s) (drop (Suc 0) buf) = Some P" by simp
  from len lb have "0 < length buf" by linarith
  then have b0: "array_get buf 0 = Some (buf ! 0)" by (simp add: array_get_def)
  have nl: "\<not> length (rx_buf s) < n" using n21 len by simp
  obtain afcc t where
    a: "rfmGetAFCC hw (s\<lparr>spi_log := spi_log s @ [[0x7F], replicate n 0xFF], rx_buf := buf\<rparr>)
          = (afcc, t)"
    and t: "rx_buf t = buf" "ppm t = ppm s" "bind_data t = bind_data s"
    by (simp add: rfmGetAFCC_def rfm22_read_def)
  show ?thesis
    unfolding rx_loop_drain_def
    apply (simp only: True if_True Let_def n_def [symmetric] nl if_False buf_def [symmetric] a
        prod.case)
    apply (simp add: t b0 c_def [symmetric] P)
    done
qed

lemma getInterval_defined:
  "well_formed cfg s \<Longrightarrow> \<exists>iv. getInterval cfg (bind_data s) = Some iv"
  using getInterval_None_iff [of cfg "bind_data s"] by (auto simp: well_formed_def)

lemma rx_loop_rssi_defined:
  assumes "well_formed cfg s"
  shows "\<exists>s'. rx_loop_rssi cfg hw s = Some s'"
proof -
  from getInterval_defined [OF assms] obtain iv where "getInterval cfg (bind_data s) = Some iv" ..
  then show ?thesis
    by (simp add: rx_loop_rssi_def Let_def rfmGetRSSI_def rfm22_read_def)
qed

lemma rx_loop_link_defined:
  assumes "well_formed cfg s"
  shows "\<exists>s'. rx_loop_link cfg hw s = Some s'"
proof -
  from getInterval_defined [OF assms] obtain iv where "getInterval cfg (bind_data s) = Some iv" ..
  then show ?thesis
    by (simp add: rx_loop_link_def Let_def)
qed

lemma rfmSetChannel_defined:
  "unat ch < length (hopchannel (bind_data s)) \<Longrightarrow> \<exists>s'. rfmSetChannel ch s = Some s'"
  by (simp add: rfmSetChannel_def array_get_def Let_def)

lemma rx_loop_hop_defined:
  assumes wf: "length (hopchannel (bind_data s)) = unat (MAXHOPS cfg)"
    and inv: "unat (rf_channel s) < hop_count cfg (hopchannel (bind_data s))"
  shows "\<exists>s'. rx_loop_hop cfg s = Some s'"
proof (cases "willhop s")
  case False
  then show ?thesis by (simp add: rx_loop_hop_def)
next
  case True
  let ?hc = "hopchannel (bind_data s)"
  have M: "unat (MAXHOPS cfg) < 256" using unsigned_less [of "MAXHOPS cfg"] by simp
  from inv hop_count_le(1) [of cfg ?hc] M have u: "unat (rf_channel s + 1) = unat (rf_channel s) + 1"
    by (subst unat_add_lem [THEN iffD1]) auto
  from inv hop_count_le(1) [of cfg ?hc] have le: "unat (rf_channel s) + 1 \<le> unat (MAXHOPS cfg)"
    by simp
  from inv hop_count_le(2) [of cfg ?hc] have z: "0 < length ?hc" by linarith
  show ?thesis
  proof (cases "rf_channel s + 1 = MAXHOPS cfg")
    case m: True
    from rfmSetChannel_defined [of 0 "s\<lparr>rf_channel := 0\<rparr>"] z
    obtain u where "rfmSetChannel 0 (s\<lparr>rf_channel := 0\<rparr>) = Some u" by auto
    with True m show ?thesis by (simp add: rx_loop_hop_def Let_def)
  next
    case m: False
    then have "unat (rf_channel s + 1) \<noteq> unat (MAXHOPS cfg)" by (simp add: word_unat_eq_iff)
    with le u wf have l: "unat (rf_channel s + 1) < length ?hc" by simp
    define ch where "ch = (if ?hc ! unat (rf_channel s + 1) = 0 then 0 else rf_channel s + 1)"
    have "unat ch < length ?hc" using l z by (simp add: ch_def)
    from rfmSetChannel_defined [of ch "s\<lparr>rf_channel := ch\<rparr>"] this
    obtain u where "rfmSetChannel ch (s\<lparr>rf_channel := ch\<rparr>) = Some u" by auto
    with True m l show ?thesis
      by (auto simp: rx_loop_hop_def Let_def array_get_def ch_def split: if_splits)
  qed
qed

lemma rx_loop_hop_buffers:
  assumes "rx_loop_hop cfg s = Some s'"
  shows "rx_buf s' = rx_buf s" "ppm s' = ppm s"
proof -
  have "rx_buf s' = rx_buf s \<and> ppm s' = ppm s"
    using assms
  proof (cases rule: rx_loop_hop_cases)
    case 1
    then show ?thesis by simp
  next
    case (2 ch u)
    from no_hw_fields [OF no_hw_rfmSetChannel [OF 2(4)]] 2(5) show ?thesis by simp
  qed
  then show "rx_buf s' = rx_buf s" "ppm s' = ppm s" by simp_all
qed

lemma rx_loop_well_formed:
  assumes "pios_openlrs_rx_loop cfg hw s = Some s'" "well_formed cfg s"
  shows "well_formed cfg s'"
proof -
  from assms(1) obtain t where t: "keeps_link s t" "rx_loop_hop cfg t = Some s'"
    by (rule rx_loop_keeps_link)
  from t(1) assms(2) have "well_formed cfg t" by (rule well_formed_keeps_link)
  with rx_loop_hop_buffers [OF t(2)] rx_loop_hop_fields(2) [OF t(2)] show ?thesis
    by (simp add: well_formed_def)
qed

lemma rx_loop_defined:
  assumes wf: "well_formed cfg s"
    and inv: "unat (rf_channel s) < hop_count cfg (hopchannel (bind_data s))"
  shows "\<exists>s'. pios_openlrs_rx_loop cfg hw s = Some s'"
proof -
  from rx_loop_lockup_defined [OF wf] obtain s1 where 1: "rx_loop_lockup cfg hw s = Some s1" ..
  note k1 = keeps_link_lockup [OF 1]
  note w1 = well_formed_keeps_link [OF k1 wf]
  from rx_loop_drain_defined [OF w1] obtain s2 where 2: "rx_loop_drain cfg hw s1 = Some s2" ..
  note k2 = keeps_link_drain [OF 2]
  note w2 = well_formed_keeps_link [OF k2 w1]
  from rx_loop_rssi_defined [OF w2] obtain s3 where 3: "rx_loop_rssi cfg hw s2 = Some s3" ..
  note k3 = keeps_link_rssi [OF 3]
  note w3 = well_formed_keeps_link [OF k3 w2]
  from rx_loop_link_defined [OF w3] obtain s4 where 4: "rx_loop_link cfg hw s3 = Some s4" ..
  note k4 = keeps_link_link [OF 4]
  note w4 = well_formed_keeps_link [OF k4 w3]
  have "keeps_link s s4" using k1 k2 k3 k4 by (blast intro: keeps_link_trans)
  then have e: "rf_channel s4 = rf_channel s" "bind_data s4 = bind_data s"
    by (simp_all add: keeps_link_def)
  from w4 have l: "length (hopchannel (bind_data s4)) = unat (MAXHOPS cfg)"
    by (simp add: well_formed_def)
  from inv e have "unat (rf_channel s4) < hop_count cfg (hopchannel (bind_data s4))" by simp
  from rx_loop_hop_defined [OF l this] obtain s5 where "rx_loop_hop cfg s4 = Some s5" ..
  with 1 2 3 4 show ?thesis by (simp add: pios_openlrs_rx_loop_def)
qed

lemma task_loop_defined:
  assumes "well_formed cfg s"
    and "unat (rf_channel s) < hop_count cfg (hopchannel (bind_data s))"
  shows "\<exists>s'. task_loop cfg es s = Some s'"
  using assms
proof (induction cfg es s rule: task_loop.induct)
  case (1 cfg s)
  then show ?case by simp
next
  case (2 cfg es s)
  have k: "keeps_link s (PIOS_OpenLRS_EXT_Int cfg s)" by (rule keeps_link_EXT_Int)
  then have "unat (rf_channel (PIOS_OpenLRS_EXT_Int cfg s))
       < hop_count cfg (hopchannel (bind_data (PIOS_OpenLRS_EXT_Int cfg s)))"
    using "2.prems"(2) by (simp add: keeps_link_def)
  with "2.IH" well_formed_keeps_link [OF k "2.prems"(1)] show ?case by simp
next
  case (3 cfg hw es s)
  from rx_loop_defined [OF "3.prems"] obtain t where t: "pios_openlrs_rx_loop cfg hw s = Some t" ..
  note w = rx_loop_well_formed [OF t "3.prems"(1)]
  note i = rx_loop_channel_inv(1) [OF t "3.prems"(2)]
  from "3.IH" [OF t w i] t show ?case by simp
qed

lemma rx_loop_acquires:
  assumes "pios_openlrs_rx_loop cfg hw s = Some s'" "rf_mode s = Received"
  shows "link_acquired s'"
proof -
  from assms(1) obtain s1 s2 s3 s4 where
    1: "rx_loop_lockup cfg hw s = Some s1" and 2: "rx_loop_drain cfg hw s1 = Some s2"
    and 3: "rx_loop_rssi cfg hw s2 = Some s3" and 4: "rx_loop_link cfg hw s3 = Some s4"
    and 5: "rx_loop_hop cfg s4 = Some s'"
    by (auto simp: pios_openlrs_rx_loop_def bind_eq_Some_conv)
  have "no_hw s1 = no_hw s"
    using 1 no_hw_read [of hw "0x0C" s]
    by (auto simp: rx_loop_lockup_def Let_def bind_eq_Some_conv no_hw_to_rx_mode
        split: prod.splits if_splits dest!: no_hw_init_rfm)
  from no_hw_fields(4) [OF this] assms(2) have m: "rf_mode s1 = Received" by simp
  have f: "link_acquired (rx_reset hw t) = link_acquired t" for t
    using no_hw_fields [OF no_hw_rx_reset [of hw t]] by simp
  from 2 m have "link_acquired s2"
    by (auto simp: rx_loop_drain_def Let_def bind_eq_Some_conv f rfmGetAFCC_def
        rfm22_read_def split: if_splits prod.splits)
  with keeps_link_rssi [OF 3] keeps_link_link [OF 4] have "link_acquired s4"
    by (simp add: keeps_link_def)
  with rx_loop_hop_fields(3) [OF 5] show ?thesis by simp
qed

lemma setup_count_hops_defined:
  assumes "unat (MAXHOPS cfg) \<le> length hc"
  shows "\<exists>h'. setup_count_hops cfg hc h = Some h'"
  using assms
proof (induction cfg hc h rule: setup_count_hops.induct)
  case (1 cfg hc h)
  show ?case
  proof (cases "h < MAXHOPS cfg")
    case False
    then show ?thesis by (subst setup_count_hops.simps) simp
  next
    case True
    then have "unat h < unat (MAXHOPS cfg)" by (simp add: word_less_nat_alt)
    with "1.prems" have c: "array_get hc (unat h) = Some (hc ! unat h)"
      by (simp add: array_get_def)
    show ?thesis
    proof (cases "hc ! unat h = 0")
      case z: True
      with True c show ?thesis by (subst setup_count_hops.simps) simp
    next
      case nz: False
      from "1.IH" [OF True c nz "1.prems"] obtain h' where
        "setup_count_hops cfg hc (h + 1) = Some h'" ..
      with True c nz show ?thesis by (subst setup_count_hops.simps) simp
    qed
  qed
qed

lemma setup_normal_mode_defined:
  assumes wf: "well_formed cfg s" and m: "0 < unat (MAXHOPS cfg)"
  shows "\<exists>s'. setup_normal_mode cfg hw s = Some s'"
proof -
  from wf obtain s1 where i: "init_rfm cfg hw False s = Some s1"
    using init_rfm_defined [of s cfg hw] by (auto simp: well_formed_def)
  from no_hw_fields(3) [OF no_hw_init_rfm [OF i]] have b1: "bind_data s1 = bind_data s" .
  from wf m b1 have "unat (0::u8) < length (hopchannel (bind_data (s1\<lparr>rf_channel := 0\<rparr>)))"
    by (simp add: well_formed_def)
  from rfmSetChannel_defined [OF this] obtain s2 where
    c: "rfmSetChannel 0 (s1\<lparr>rf_channel := 0\<rparr>) = Some s2" ..
  from no_hw_fields(3) [OF no_hw_rfmSetChannel [OF c]] b1 have b2: "bind_data s2 = bind_data s"
    by simp
  from wf b2 have "unat (MAXHOPS cfg) \<le> length (hopchannel (bind_data s2))"
    by (simp add: well_formed_def)
  from setup_count_hops_defined [OF this] obtain h where
    "setup_count_hops cfg (hopchannel (bind_data s2)) 0 = Some h" ..
  with i c show ?thesis by (simp add: setup_normal_mode_def Let_def)
qed

lemma setup_normal_mode_device:
  assumes "setup_normal_mode cfg hw s = Some s'"
  shows "rf_mode s' = Receive" "magic s' = magic s" "g_openlrs_dev_set s' = g_openlrs_dev_set s"
    "rx_buf s' = rx_buf s" "ppm s' = ppm s"
proof -
  from assms obtain s1 s2 h where i: "init_rfm cfg hw False s = Some s1"
    and c: "rfmSetChannel 0 (s1\<lparr>rf_channel := 0\<rparr>) = Some s2"
    and s': "s' = (to_rx_mode hw (s2\<lparr>hopcount := h, rf_mode := Receive\<rparr>))
                  \<lparr>link_acquired := False, lastPacketTimeUs := timeUs hw\<rparr>"
    by (auto simp: setup_normal_mode_def Let_def bind_eq_Some_conv)
  note f1 = no_hw_fields [OF no_hw_init_rfm [OF i]]
  note f2 = no_hw_fields [OF no_hw_rfmSetChannel [OF c]]
  note f3 = no_hw_fields [OF no_hw_to_rx_mode [of hw "s2\<lparr>hopcount := h, rf_mode := Receive\<rparr>"]]
  show "rf_mode s' = Receive" using f3(4) by (simp add: s')
  show "magic s' = magic s" using f3(1) f2(1) f1(1) by (simp add: s')
  show "g_openlrs_dev_set s' = g_openlrs_dev_set s" using f3(9) f2(9) f1(9) by (simp add: s')
  show "rx_buf s' = rx_buf s" using f3(7) f2(7) f1(7) by (simp add: s')
  show "ppm s' = ppm s" using f3(8) f2(8) f1(8) by (simp add: s')
qed

lemma setup_normal_mode_well_formed:
  assumes "setup_normal_mode cfg hw s = Some s'" "well_formed cfg s"
  shows "well_formed cfg s'"
  using setup_normal_mode_device(4,5) [OF assms(1)] setup_normal_mode_fields(2) [OF assms(1)]
    assms(2)
  by (simp add: well_formed_def)

lemma pios_openlrs_setup_cases:
  assumes "pios_openlrs_setup cfg bnd hw0 es hw1 s = Some (True, s1)"
  obtains t where "setup_normal_mode cfg hw1 t = Some s1" "\<not> bnd \<longrightarrow> t = s"
  using assms
  by (auto simp: pios_openlrs_setup_def bind_eq_Some_conv split: option.splits if_splits)

lemma pios_openlrs_setup_fields:
  assumes "pios_openlrs_setup cfg bnd hw0 es hw1 s = Some (True, s1)"
  shows "rf_channel s1 = 0" "\<not> link_acquired s1"
    "unat (hopcount s1) = hop_count cfg (hopchannel (bind_data s1))"
proof -
  from assms obtain t where t: "setup_normal_mode cfg hw1 t = Some s1"
    by (rule pios_openlrs_setup_cases)
  note f = setup_normal_mode_fields [OF t]
  show "rf_channel s1 = 0" "\<not> link_acquired s1" by (rule f)+
  from f(2,4) show "unat (hopcount s1) = hop_count cfg (hopchannel (bind_data s1))" by simp
qed

lemma lockup_link_acquired:
  assumes "rx_loop_lockup cfg hw s = Some t"
  shows "link_acquired t = link_acquired s"
proof -
  have "no_hw t = no_hw s"
    using assms no_hw_read [of hw "0x0C" s]
    by (auto simp: rx_loop_lockup_def Let_def bind_eq_Some_conv no_hw_to_rx_mode
        split: prod.splits if_splits dest!: no_hw_init_rfm)
  then show ?thesis by (rule no_hw_fields(6))
qed

lemma link_link_acquired:
  assumes "rx_loop_link cfg hw s = Some t"
  shows "link_acquired t = link_acquired s"
  using assms
  by (auto simp: rx_loop_link_def Let_def bind_eq_Some_conv split: if_splits)

lemma example_well_formed:
  "well_formed example_config (example_state (example_bind_data 2 2))"
  by (simp add: well_formed_def example_config_def example_state_def example_bind_data_def)

lemma example_hop_count:
  "hop_count example_config (hopchannel (example_bind_data fl mp)) = 6"
  by (simp add: hop_count_def example_config_def example_bind_data_def)

lemma example_unbound_well_formed:
  "well_formed example_config
     (example_state ((example_bind_data 2 2)\<lparr>hopchannel := replicate 24 0\<rparr>))"
  by (simp add: well_formed_def example_config_def example_state_def example_bind_data_def)

text \<open>
  Claim C5. From the end of \<^verbatim>\<open>pios_openlrs_setup\<close> (which clears \<open>link_acquired\<close>) on,
  \<open>link_acquired\<close> is never cleared once it is set: not by any run of the task loop, that
  is by any sequence of passes of \<^verbatim>\<open>pios_openlrs_rx_loop\<close> and interrupts; not by a single
  pass, which sets it when a packet has been received; not by the re-initialisation of a
  locked-up radio; not by the loss and slow-hop logic with its search mode; not by the
  interrupt handler. In a well-formed state with the channel index below the hop count
  the task loop has a result for every sequence of events, so the statement is about
  runs that exist.
\<close>

theorem link_acquired_sticky:
  "(task_loop cfg es s = Some s' \<and> link_acquired s \<longrightarrow> link_acquired s') \<and>
   (pios_openlrs_rx_loop cfg hw s = Some t \<and> (link_acquired s \<or> rf_mode s = Received) \<longrightarrow>
      link_acquired t) \<and>
   (rx_loop_lockup cfg hw s = Some t \<longrightarrow> link_acquired t = link_acquired s) \<and>
   (rx_loop_link cfg hw s = Some t \<longrightarrow> link_acquired t = link_acquired s) \<and>
   link_acquired (PIOS_OpenLRS_EXT_Int cfg s) = link_acquired s \<and>
   (pios_openlrs_setup cfg bnd hw0 bes hw s = Some (True, t) \<longrightarrow> \<not> link_acquired t) \<and>
   (well_formed cfg s \<and> unat (rf_channel s) < hop_count cfg (hopchannel (bind_data s)) \<longrightarrow>
      (\<exists>u. task_loop cfg es s = Some u))"
proof (intro conjI impI)
  assume "task_loop cfg es s = Some s' \<and> link_acquired s"
  then show "link_acquired s'" using task_loop_link_acquired by blast
next
  assume "pios_openlrs_rx_loop cfg hw s = Some t \<and> (link_acquired s \<or> rf_mode s = Received)"
  then show "link_acquired t" using rx_loop_link_acquired rx_loop_acquires by blast
next
  assume "rx_loop_lockup cfg hw s = Some t"
  then show "link_acquired t = link_acquired s" by (rule lockup_link_acquired)
next
  assume "rx_loop_link cfg hw s = Some t"
  then show "link_acquired t = link_acquired s" by (rule link_link_acquired)
next
  show "link_acquired (PIOS_OpenLRS_EXT_Int cfg s) = link_acquired s"
    by (simp add: PIOS_OpenLRS_EXT_Int_def Let_def)
next
  assume "pios_openlrs_setup cfg bnd hw0 bes hw s = Some (True, t)"
  then show "\<not> link_acquired t" by (rule pios_openlrs_setup_fields)
next
  assume "well_formed cfg s \<and> unat (rf_channel s) < hop_count cfg (hopchannel (bind_data s))"
  then show "\<exists>u. task_loop cfg es s = Some u" using task_loop_defined by blast
qed

text \<open>
  The theorem on a session: the setup with the example binding data leaves the link not
  acquired; an interrupt and a pass that reads the packet acquire it; it is still
  acquired after three more passes and an interrupt, the last pass half a second later.
\<close>

theorem link_acquired_sticky_witness:
  "\<exists>s1 u v.
     pios_openlrs_setup example_config False (example_inputs [] 0 0) [] (example_inputs [] 0 0)
       (example_state (example_bind_data 2 2)) = Some (True, s1) \<and>
     \<not> link_acquired s1 \<and>
     task_loop example_config [Irq, Poll (example_inputs [0, 1, 2, 3, 4, 5] 3000 3)] s1 = Some u \<and>
     link_acquired u \<and>
     task_loop example_config
       [Poll (example_inputs [] 18001 18), Irq, Poll (example_inputs [] 20000 20),
        Poll (example_inputs [] 500000 500)] u = Some v \<and>
     link_acquired v"
proof -
  let ?cfg = example_config
  let ?init = "example_state (example_bind_data 2 2)"
  let ?hw = "example_inputs [] 0 0"
  let ?rx = "example_inputs [0, 1, 2, 3, 4, 5] 3000 3"
  let ?rest = "[Poll (example_inputs [] 18001 18), Irq, Poll (example_inputs [] 20000 20),
                Poll (example_inputs [] 500000 500)]"
  have m: "0 < unat (MAXHOPS ?cfg)" by (simp add: example_config_def)
  from setup_normal_mode_defined [OF example_well_formed m] obtain s1 where
    n: "setup_normal_mode ?cfg ?hw ?init = Some s1" ..
  then have su: "pios_openlrs_setup ?cfg False ?hw [] ?hw ?init = Some (True, s1)"
    by (simp add: pios_openlrs_setup_def)
  note w1 = setup_normal_mode_well_formed [OF n example_well_formed]
  note f = setup_normal_mode_fields [OF n]
  note d = setup_normal_mode_device [OF n]
  from f(2) have b: "bind_data s1 = example_bind_data 2 2" by (simp add: example_state_def)
  from f(1) b have i1: "unat (rf_channel s1) < hop_count ?cfg (hopchannel (bind_data s1))"
    by (simp add: example_hop_count)
  let ?q = "PIOS_OpenLRS_EXT_Int ?cfg s1"
  have k: "keeps_link s1 ?q" by (rule keeps_link_EXT_Int)
  note wq = well_formed_keeps_link [OF k w1]
  from k i1 have iq: "unat (rf_channel ?q) < hop_count ?cfg (hopchannel (bind_data ?q))"
    by (simp add: keeps_link_def)
  from d have rq: "rf_mode ?q = Received"
    by (simp add: PIOS_OpenLRS_EXT_Int_def Let_def pios_openlrs_validate_def example_state_def
          example_config_def)
  from rx_loop_defined [OF wq iq] obtain u where
    u: "pios_openlrs_rx_loop ?cfg ?rx ?q = Some u" ..
  then have tu: "task_loop ?cfg [Irq, Poll ?rx] s1 = Some u" by simp
  note wu = rx_loop_well_formed [OF u wq]
  note iu = rx_loop_channel_inv(1) [OF u iq]
  note th = link_acquired_sticky [where cfg = ?cfg and es = ?rest and bnd = False and bes = "[]"]
  from th [where s = ?q and hw = ?rx and t = u] u rq have lu: "link_acquired u" by simp
  from th [where s = u] wu iu obtain v where v: "task_loop ?cfg ?rest u = Some v" by blast
  from th [where s = u and s' = v] v lu have lv: "link_acquired v" by simp
  from th [where s = ?init and ?hw0.0 = ?hw and hw = ?hw and t = s1] su have "\<not> link_acquired s1" by simp
  with su tu lu v lv show ?thesis by blast
qed

text \<open>
  Claim C6, as the code has it. After \<^verbatim>\<open>pios_openlrs_setup\<close> the channel index is 0 and
  the variable \<^verbatim>\<open>hopcount\<close> is the hop count: the number of entries of \<^verbatim>\<open>hopchannel\<close>
  before the zero terminator, at most \<open>MAXHOPS\<close>. When the hop count is not 0, that is when
  \<open>MAXHOPS\<close> is not 0 and the first entry of \<^verbatim>\<open>hopchannel\<close> is not 0, then after every run
  of the task loop \<open>rf_channel < hop_count\<close> holds, \<^verbatim>\<open>hopcount\<close> is still the hop count and
  the binding data are unchanged; the hop step alone (increment, back to 0 on reaching \<open>MAXHOPS\<close> or
  a zero entry) preserves the bound; and in a well-formed state every run has a result.
  With a hop count of 0 the bound is false already at the end of the setup.
\<close>

theorem rf_channel_below_hop_count:
  "(pios_openlrs_setup cfg bnd hw0 bes hw1 s0 = Some (True, s1) \<longrightarrow>
      rf_channel s1 = 0 \<and>
      unat (hopcount s1) = hop_count cfg (hopchannel (bind_data s1)) \<and>
      hop_count cfg (hopchannel (bind_data s1)) \<le> unat (MAXHOPS cfg)) \<and>
   (pios_openlrs_setup cfg bnd hw0 bes hw1 s0 = Some (True, s1) \<and>
    0 < hop_count cfg (hopchannel (bind_data s1)) \<and> task_loop cfg es s1 = Some s' \<longrightarrow>
      unat (rf_channel s') < hop_count cfg (hopchannel (bind_data s')) \<and>
      unat (hopcount s') = hop_count cfg (hopchannel (bind_data s')) \<and>
      hop_count cfg (hopchannel (bind_data s')) \<le> unat (MAXHOPS cfg) \<and>
      bind_data s' = bind_data s1) \<and>
   (rx_loop_hop cfg s = Some t \<and>
    unat (rf_channel s) < hop_count cfg (hopchannel (bind_data s)) \<longrightarrow>
      unat (rf_channel t) < hop_count cfg (hopchannel (bind_data t))) \<and>
   (pios_openlrs_setup cfg bnd hw0 bes hw1 s0 = Some (True, s1) \<and> well_formed cfg s1 \<and>
    0 < hop_count cfg (hopchannel (bind_data s1)) \<longrightarrow>
      (\<exists>u. task_loop cfg es s1 = Some u)) \<and>
   (0 < hop_count cfg hc \<longleftrightarrow> 0 < unat (MAXHOPS cfg) \<and> hc \<noteq> [] \<and> hc ! 0 \<noteq> 0)"
proof (intro conjI impI)
  assume a: "pios_openlrs_setup cfg bnd hw0 bes hw1 s0 = Some (True, s1)"
  show "rf_channel s1 = 0" using a by (rule pios_openlrs_setup_fields)
  show "unat (hopcount s1) = hop_count cfg (hopchannel (bind_data s1))"
    using a by (rule pios_openlrs_setup_fields)
  show "hop_count cfg (hopchannel (bind_data s1)) \<le> unat (MAXHOPS cfg)"
    by (rule hop_count_le)
next
  assume a: "pios_openlrs_setup cfg bnd hw0 bes hw1 s0 = Some (True, s1) \<and>
    0 < hop_count cfg (hopchannel (bind_data s1)) \<and> task_loop cfg es s1 = Some s'"
  then have su: "pios_openlrs_setup cfg bnd hw0 bes hw1 s0 = Some (True, s1)"
    and p: "0 < hop_count cfg (hopchannel (bind_data s1))"
    and r: "task_loop cfg es s1 = Some s'" by simp_all
  note f = pios_openlrs_setup_fields [OF su]
  from f(1) p have "unat (rf_channel s1) < hop_count cfg (hopchannel (bind_data s1))" by simp
  from task_loop_inv [OF r this]
  have i: "unat (rf_channel s') < hop_count cfg (hopchannel (bind_data s'))"
    and h: "hopcount s' = hopcount s1" and b: "bind_data s' = bind_data s1" by blast+
  show "unat (rf_channel s') < hop_count cfg (hopchannel (bind_data s'))" by (rule i)
  show "unat (hopcount s') = hop_count cfg (hopchannel (bind_data s'))"
    using f(3) h b by simp
  show "hop_count cfg (hopchannel (bind_data s')) \<le> unat (MAXHOPS cfg)" by (rule hop_count_le)
  show "bind_data s' = bind_data s1" by (rule b)
next
  assume "rx_loop_hop cfg s = Some t \<and>
    unat (rf_channel s) < hop_count cfg (hopchannel (bind_data s))"
  then show "unat (rf_channel t) < hop_count cfg (hopchannel (bind_data t))"
    using rx_loop_hop_inv by blast
next
  assume a: "pios_openlrs_setup cfg bnd hw0 bes hw1 s0 = Some (True, s1) \<and> well_formed cfg s1 \<and>
    0 < hop_count cfg (hopchannel (bind_data s1))"
  then have "rf_channel s1 = 0" using pios_openlrs_setup_fields(1) by blast
  with a have "unat (rf_channel s1) < hop_count cfg (hopchannel (bind_data s1))" by simp
  with a show "\<exists>u. task_loop cfg es s1 = Some u" using task_loop_defined by blast
next
  show "0 < hop_count cfg hc \<longleftrightarrow> 0 < unat (MAXHOPS cfg) \<and> hc \<noteq> [] \<and> hc ! 0 \<noteq> 0"
    by (rule hop_count_pos_iff)
qed

text \<open>
  The theorem on the example binding data with six hop channels: after the setup, three
  passes and an interrupt, the channel index is below 6 and \<^verbatim>\<open>hopcount\<close> is 6.
\<close>

theorem rf_channel_below_hop_count_witness:
  "\<exists>s1 s'.
     pios_openlrs_setup example_config False (example_inputs [] 0 0) [] (example_inputs [] 0 0)
       (example_state (example_bind_data 2 2)) = Some (True, s1) \<and>
     well_formed example_config s1 \<and>
     0 < hop_count example_config (hopchannel (bind_data s1)) \<and>
     task_loop example_config
       [Poll (example_inputs [] 100000 100), Irq, Poll (example_inputs [] 200000 200),
        Poll (example_inputs [] 300000 300)] s1 = Some s' \<and>
     unat (rf_channel s') < 6 \<and> unat (hopcount s') = 6 \<and>
     hop_count example_config (hopchannel (bind_data s')) = 6"
proof -
  let ?cfg = example_config
  let ?init = "example_state (example_bind_data 2 2)"
  let ?hw = "example_inputs [] 0 0"
  let ?es = "[Poll (example_inputs [] 100000 100), Irq, Poll (example_inputs [] 200000 200),
              Poll (example_inputs [] 300000 300)]"
  have m: "0 < unat (MAXHOPS ?cfg)" by (simp add: example_config_def)
  from setup_normal_mode_defined [OF example_well_formed m] obtain s1 where
    n: "setup_normal_mode ?cfg ?hw ?init = Some s1" ..
  then have su: "pios_openlrs_setup ?cfg False ?hw [] ?hw ?init = Some (True, s1)"
    by (simp add: pios_openlrs_setup_def)
  note w1 = setup_normal_mode_well_formed [OF n example_well_formed]
  from setup_normal_mode_fields(2) [OF n] have b: "bind_data s1 = example_bind_data 2 2"
    by (simp add: example_state_def)
  then have h: "hop_count ?cfg (hopchannel (bind_data s1)) = 6" by (simp add: example_hop_count)
  note th = rf_channel_below_hop_count [where cfg = ?cfg and bnd = False and ?hw0.0 = ?hw
      and bes = "[]" and ?hw1.0 = ?hw and ?s0.0 = ?init and ?s1.0 = s1 and es = ?es]
  from h have p: "0 < hop_count ?cfg (hopchannel (bind_data s1))" by simp
  from th su w1 p obtain s' where r: "task_loop ?cfg ?es s1 = Some s'" by blast
  from th [where s' = s'] su p r
  have c: "unat (rf_channel s') < hop_count ?cfg (hopchannel (bind_data s'))"
    "unat (hopcount s') = hop_count ?cfg (hopchannel (bind_data s'))"
    "bind_data s' = bind_data s1" by blast+
  from c(3) h have "hop_count ?cfg (hopchannel (bind_data s')) = 6" by (simp only:)
  with c(1,2) have "unat (rf_channel s') < 6" "unat (hopcount s') = 6"
    "hop_count ?cfg (hopchannel (bind_data s')) = 6" by (simp_all only:)
  with su w1 p r show ?thesis by blast
qed

text \<open>
  The claim for binding data whose hop list is empty (the first entry of \<^verbatim>\<open>hopchannel\<close>
  is 0; nothing in the code excludes it): the setup succeeds and leaves \<open>rf_channel = 0\<close>,
  \<^verbatim>\<open>hopcount = 0\<close> and a hop count of 0, so \<open>rf_channel < hop_count\<close> does not hold.
\<close>

theorem rf_channel_claim_counterexample:
  "map_option (\<lambda>(r, s). (r, rf_channel s, hopcount s,
                           hop_count example_config (hopchannel (bind_data s))))
     (pios_openlrs_setup example_config False (example_inputs [] 0 0) []
        (example_inputs [] 0 0)
        (example_state ((example_bind_data 2 2)\<lparr>hopchannel := replicate 24 0\<rparr>)))
   = Some (True, 0, 0, 0)"
proof -
  let ?cfg = example_config
  let ?init = "example_state ((example_bind_data 2 2)\<lparr>hopchannel := replicate 24 0\<rparr>)"
  let ?hw = "example_inputs [] 0 0"
  have m: "0 < unat (MAXHOPS ?cfg)" by (simp add: example_config_def)
  from setup_normal_mode_defined [OF example_unbound_well_formed m] obtain s1 where
    n: "setup_normal_mode ?cfg ?hw ?init = Some s1" ..
  then have su: "pios_openlrs_setup ?cfg False ?hw [] ?hw ?init = Some (True, s1)"
    by (simp add: pios_openlrs_setup_def)
  note f = setup_normal_mode_fields [OF n]
  from f(2) have b: "hopchannel (bind_data s1) = replicate 24 0" by (simp add: example_state_def)
  have h: "hop_count ?cfg (replicate 24 0) = 0"
    by (simp add: hop_count_def example_config_def)
  from f(4) h have "unat (hopcount s1) = 0" by (simp add: example_state_def)
  then have "hopcount s1 = 0" by (simp add: unsigned_eq_0_iff)
  with su f(1) b h show ?thesis by simp
qed

end
